theory Spec2Isabelle
  imports Main
begin

section \<open>JavaScript strings\<close>

text \<open>
  A JavaScript string is modelled as a \<^typ>\<open>string\<close>; one \<^typ>\<open>char\<close> stands for one
  code unit, so \<open>length\<close> is the source's \<open>.length\<close> on texts whose code units fit a
  byte. The three separators of \<open>splitMessage\<close> are spelled out as characters: the
  source literal \<^verbatim>\<open>'\\n'\<close> is the two characters backslash and \<open>n\<close>, the source
  literal \<^verbatim>\<open>'\n'\<close> is the single line feed U+000A.
\<close>

definition backslash_n :: string where
  "backslash_n = [CHR 0x5C, CHR ''n'']"

definition line_feed :: string where
  "line_feed = [CHR 0x0A]"

definition space :: string where
  "space = [CHR '' '']"

text \<open>
  \<^verbatim>\<open>String.prototype.split(sep)\<close> for a string separator: the text is scanned from
  the left; at every position where \<open>sep\<close> starts, the piece collected so far is
  closed and the scan continues behind the separator. The piece open at the end of the
  text is always returned, so the result is never empty: \<^verbatim>\<open>''.split(sep)\<close> is
  \<^verbatim>\<open>['']\<close>. With the empty separator the text falls into its code units.
\<close>

function splitFrom :: "string \<Rightarrow> string \<Rightarrow> string \<Rightarrow> string list" where
  "splitFrom sep piece [] = [piece]"
| "splitFrom sep piece (c # cs) =
     (if sep \<noteq> [] \<and> take (length sep) (c # cs) = sep
      then piece # splitFrom sep [] (drop (length sep) (c # cs))
      else splitFrom sep (piece @ [c]) cs)"
  by pat_completeness auto
termination
  by (relation "measure (\<lambda>(sep, piece, s). length s)") auto

definition split_js :: "string \<Rightarrow> string \<Rightarrow> string list" where
  "split_js s sep = (if sep = [] then map (\<lambda>c. [c]) s else splitFrom sep [] s)"

text \<open>\<^verbatim>\<open>Array.prototype.join(sep)\<close> on an array of strings.\<close>

fun join_js :: "string \<Rightarrow> string list \<Rightarrow> string" where
  "join_js sep [] = []"
| "join_js sep [x] = x"
| "join_js sep (x # y # ys) = x @ sep @ join_js sep (y # ys)"

text \<open>\<^verbatim>\<open>String.prototype.includes(sub)\<close>: \<open>sub\<close> starts at some position of the text.\<close>

fun includes_js :: "string \<Rightarrow> string \<Rightarrow> bool" where
  "includes_js [] sub = (sub = [])"
| "includes_js (c # cs) sub = (take (length sub) (c # cs) = sub \<or> includes_js cs sub)"

section \<open>MessageChunker: \<open>splitMessage\<close>\<close>

text \<open>
  The two copies of \<open>splitMessage\<close> in \<^verbatim>\<open>app.js\<close> are the same text, so one model
  serves both. Its mutable locals \<open>chunks\<close>, \<open>currentChunk\<close> and
  \<open>currentLineCount\<close> are the fields of the loop state.
\<close>

record chunker =
  chunks :: "string list"
  currentChunk :: "string list"
  currentLineCount :: int

definition initialChunker :: chunker where
  "initialChunker = \<lparr>chunks = [], currentChunk = [], currentLineCount = 0\<rparr>"

text \<open>
  The source repeats one fragment at each of the three places where a line is emitted:
  \<^verbatim>\<open>
  if (currentLineCount >= maxLines) {
    chunks.push(currentChunk.join('\n'));
    currentChunk = [];
    currentLineCount = 0;
  }
  currentChunk.push(line);
  currentLineCount++;
  \<close>
\<close>

definition pushLine :: "int \<Rightarrow> string \<Rightarrow> chunker \<Rightarrow> chunker" where
  "pushLine maxLines line st =
     (let st1 = (if currentLineCount st \<ge> maxLines
                 then st\<lparr>chunks := chunks st @ [join_js line_feed (currentChunk st)],
                          currentChunk := [],
                          currentLineCount := 0\<rparr>
                 else st)
      in st1\<lparr>currentChunk := currentChunk st1 @ [line],
               currentLineCount := currentLineCount st1 + 1\<rparr>)"

text \<open>
  The inner loop \<^verbatim>\<open>for (const word of words)\<close> with its locals \<open>currentLine\<close> and
  \<open>currentLength\<close>; it returns the line still open when the words are used up.
\<close>

fun wordLoop :: "int \<Rightarrow> int \<Rightarrow> string list \<Rightarrow> string list \<Rightarrow> int \<Rightarrow> chunker
                  \<Rightarrow> string list \<times> chunker" where
  "wordLoop maxLines maxCharsPerLine [] currentLine currentLength st = (currentLine, st)"
| "wordLoop maxLines maxCharsPerLine (word # ws) currentLine currentLength st =
     (if currentLength + int (length word) + 1 \<le> maxCharsPerLine
      then wordLoop maxLines maxCharsPerLine ws
             (currentLine @ [word]) (currentLength + int (length word) + 1) st
      else wordLoop maxLines maxCharsPerLine ws
             [word] (int (length word)) (pushLine maxLines (join_js space currentLine) st))"

text \<open>The body of the outer loop \<^verbatim>\<open>for (const paragraph of paragraphs)\<close>.\<close>

definition paragraphStep :: "int \<Rightarrow> int \<Rightarrow> chunker \<Rightarrow> string \<Rightarrow> chunker" where
  "paragraphStep maxLines maxCharsPerLine st paragraph =
     (if int (length paragraph) > maxCharsPerLine
      then (case wordLoop maxLines maxCharsPerLine (split_js paragraph space) [] 0 st of
              (currentLine, st1) \<Rightarrow>
                if currentLine \<noteq> [] then pushLine maxLines (join_js space currentLine) st1
                else st1)
      else pushLine maxLines paragraph st)"

definition splitMessage :: "string \<Rightarrow> int \<Rightarrow> int \<Rightarrow> string list" where
  "splitMessage text maxLines maxCharsPerLine =
     (let st = foldl (paragraphStep maxLines maxCharsPerLine) initialChunker
                 (split_js text backslash_n)
      in if currentChunk st \<noteq> []
         then chunks st @ [join_js line_feed (currentChunk st)]
         else chunks st)"

text \<open>
  The lines \<open>splitMessage\<close> pushes, in the order it pushes them, read off the same
  two loops with the chunk left out: \<open>wordLines\<close> follows the inner loop, with its
  \<open>currentLine\<close> and \<open>currentLength\<close>, and lists the line pushed in its
  \<open>else\<close> branch and the line pushed behind the loop; \<open>paragraphLines\<close> follows
  the body of the outer loop. Lemma \<open>foldl_paragraphStep\<close> shows that these are the
  lines the loops above push.
\<close>

fun wordLines :: "int \<Rightarrow> string list \<Rightarrow> string list \<Rightarrow> int \<Rightarrow> string list" where
  "wordLines maxCharsPerLine [] currentLine currentLength =
     (if currentLine \<noteq> [] then [join_js space currentLine] else [])"
| "wordLines maxCharsPerLine (word # ws) currentLine currentLength =
     (if currentLength + int (length word) + 1 \<le> maxCharsPerLine
      then wordLines maxCharsPerLine ws
             (currentLine @ [word]) (currentLength + int (length word) + 1)
      else join_js space currentLine # wordLines maxCharsPerLine ws [word] (int (length word)))"

definition paragraphLines :: "int \<Rightarrow> string \<Rightarrow> string list" where
  "paragraphLines maxCharsPerLine paragraph =
     (if int (length paragraph) > maxCharsPerLine
      then wordLines maxCharsPerLine (split_js paragraph space) [] 0
      else [paragraph])"

definition pushedLines :: "string \<Rightarrow> int \<Rightarrow> string list" where
  "pushedLines text maxCharsPerLine =
     concat (map (paragraphLines maxCharsPerLine) (split_js text backslash_n))"


section \<open>JSON values and the conversation files\<close>

text \<open>
  The values \<^verbatim>\<open>JSON.parse\<close> can return. Numbers are abbreviated to integers. An
  object is the list of its own properties; a property is looked up with \<open>map_of\<close>.
\<close>

datatype json =
    JNull
  | JBool bool
  | JNum int
  | JStr string
  | JArr "json list"
  | JObj "(string \<times> json) list"

text \<open>
  What reading and parsing a conversation file can come to, one constructor for each
  path through \<^verbatim>\<open>JSON.parse(fs.readFileSync(filePath, 'utf8'))\<close>. The bytes of a
  file are abstracted by the value they parse to, and \<^verbatim>\<open>JSON.stringify(history, null, 2)\<close>
  writes the bytes that parse back to \<open>history\<close>.
\<close>

datatype stored =
    NoFile      \<comment> \<open>\<open>readFileSync\<close> throws with \<open>code === 'ENOENT'\<close>\<close>
  | ReadError   \<comment> \<open>\<open>readFileSync\<close> throws any other error\<close>
  | BadJson     \<comment> \<open>the file is read and \<open>JSON.parse\<close> throws a \<open>SyntaxError\<close>\<close>
  | Json json   \<comment> \<open>the file is read and \<open>JSON.parse\<close> returns this value\<close>

text \<open>
  What \<^verbatim>\<open>fs.writeFileSync(filePath, data)\<close> comes to. It opens the file, which cuts it to
  length zero, and then writes: it returns, or it throws at the open and leaves the file
  as it was, or it throws behind the open and leaves the empty text or a proper beginning
  of the data. The data is the text of a JSON array, which ends in its closing bracket, so
  what is left then does not parse.
\<close>

datatype writeOutcome = Written | OpenFails | FailsAfterOpen

text \<open>
  Everything outside the process that the handler touches: the conversation files, what a
  write to a path comes to, and the record of what the delivery loop did, in the order it
  happened: every invocation of the send function with recipient, content and the boolean
  it returned, and every inter-chunk wait.
\<close>

datatype effect = SendCall string string bool | Delay

record world =
  files :: "string \<Rightarrow> stored"
  writes :: "string \<Rightarrow> writeOutcome"
  trace :: "effect list"

definition CONVERSATIONS_DIR :: string where
  "CONVERSATIONS_DIR = ''conversations''"

text \<open>\<^verbatim>\<open>path.join(CONVERSATIONS_DIR, `${userId}.json`)\<close>, for a \<open>userId\<close> without path syntax.\<close>

definition conversationPath :: "string \<Rightarrow> string" where
  "conversationPath userId = CONVERSATIONS_DIR @ ''/'' @ userId @ ''.json''"

text \<open>\<^verbatim>\<open>typeof item === 'object'\<close>.\<close>

fun typeofObject :: "json \<Rightarrow> bool" where
  "typeofObject JNull = True"
| "typeofObject (JArr xs) = True"
| "typeofObject (JObj kvs) = True"
| "typeofObject v = False"

text \<open>
  \<^verbatim>\<open>k in item\<close> for the keys \<open>role\<close> and \<open>parts\<close> that the source asks for: a
  \<open>TypeError\<close> (here \<open>None\<close>) unless \<open>item\<close> is an object or an array; an array has
  neither key.
\<close>

fun inOperator :: "string \<Rightarrow> json \<Rightarrow> bool option" where
  "inOperator k (JObj kvs) = Some (k \<in> set (map fst kvs))"
| "inOperator k (JArr xs) = Some False"
| "inOperator k v = None"

text \<open>\<^verbatim>\<open>Array.prototype.every\<close> with a callback that may throw (\<open>None\<close>).\<close>

fun every_js :: "(json \<Rightarrow> bool option) \<Rightarrow> json list \<Rightarrow> bool option" where
  "every_js p [] = Some True"
| "every_js p (x # xs) =
     (case p x of
        None \<Rightarrow> None
      | Some False \<Rightarrow> Some False
      | Some True \<Rightarrow> every_js p xs)"

text \<open>
  The callback of the first copy:
  \<^verbatim>\<open>item => typeof item === 'object' && 'role' in item && 'parts' in item\<close>.
\<close>

definition validItem :: "json \<Rightarrow> bool option" where
  "validItem item =
     (if \<not> typeofObject item then Some False
      else case inOperator ''role'' item of
             None \<Rightarrow> None
           | Some False \<Rightarrow> Some False
           | Some True \<Rightarrow> inOperator ''parts'' item)"

text \<open>
  \<open>loadConversationHistory\<close> of the first copy. Every branch of its \<open>catch\<close> returns
  the empty array; the \<open>TypeError\<close> of the validity check lands in its last branch.
\<close>

definition loadConversationHistory :: "string \<Rightarrow> world \<Rightarrow> json list" where
  "loadConversationHistory userId w =
     (case files w (conversationPath userId) of
        NoFile \<Rightarrow> []
      | ReadError \<Rightarrow> []
      | BadJson \<Rightarrow> []
      | Json history \<Rightarrow>
          (case history of
             JArr items \<Rightarrow>
               (case every_js validItem items of
                  Some True \<Rightarrow> items
                | Some False \<Rightarrow> []
                | None \<Rightarrow> [])
           | _ \<Rightarrow> []))"

text \<open>
  \<open>saveConversationHistory\<close>, the same in both copies: the file is overwritten, and
  an error of the write is logged and swallowed.
\<close>

definition saveConversationHistory :: "string \<Rightarrow> json list \<Rightarrow> world \<Rightarrow> world" where
  "saveConversationHistory userId history w =
     (case writes w (conversationPath userId) of
        Written \<Rightarrow> w\<lparr>files := (files w)(conversationPath userId := Json (JArr history))\<rparr>
      | OpenFails \<Rightarrow> w
      | FailsAfterOpen \<Rightarrow> w\<lparr>files := (files w)(conversationPath userId := BadJson)\<rparr>)"

text \<open>JavaScript truthiness of a JSON value, and of a property that may be \<open>undefined\<close>.\<close>

fun truthy :: "json \<Rightarrow> bool" where
  "truthy JNull = False"
| "truthy (JBool b) = b"
| "truthy (JNum n) = (n \<noteq> 0)"
| "truthy (JStr s) = (s \<noteq> [])"
| "truthy (JArr xs) = True"
| "truthy (JObj kvs) = True"

text \<open>
  \<^verbatim>\<open>item.k\<close> taken as a condition, for the keys \<open>role\<close> and \<open>parts\<close>: a
  \<open>TypeError\<close> on \<open>null\<close>, the property's truthiness on an object, and
  \<open>undefined\<close>, which is falsy, on everything else.
\<close>

fun propertyTruthy :: "string \<Rightarrow> json \<Rightarrow> bool option" where
  "propertyTruthy k JNull = None"
| "propertyTruthy k (JObj kvs) =
     Some (case map_of kvs k of None \<Rightarrow> False | Some v \<Rightarrow> truthy v)"
| "propertyTruthy k v = Some False"

text \<open>The callback of the second copy: \<^verbatim>\<open>item => item.role && item.parts\<close>.\<close>

definition validItem2 :: "json \<Rightarrow> bool option" where
  "validItem2 item =
     (case propertyTruthy ''role'' item of
        None \<Rightarrow> None
      | Some False \<Rightarrow> Some False
      | Some True \<Rightarrow> propertyTruthy ''parts'' item)"

text \<open>\<open>loadConversationHistory\<close> of the second copy; its \<open>catch\<close> has one exit.\<close>

definition loadConversationHistory2 :: "string \<Rightarrow> world \<Rightarrow> json list" where
  "loadConversationHistory2 userId w =
     (case files w (conversationPath userId) of
        NoFile \<Rightarrow> []
      | ReadError \<Rightarrow> []
      | BadJson \<Rightarrow> []
      | Json history \<Rightarrow>
          (case history of
             JArr items \<Rightarrow>
               (case every_js validItem2 items of
                  Some True \<Rightarrow> items
                | Some False \<Rightarrow> []
                | None \<Rightarrow> [])
           | _ \<Rightarrow> []))"


section \<open>ReplyGenerator: \<open>getGeminiResponse\<close>\<close>

text \<open>
  \<^verbatim>\<open>String.prototype.trim\<close>: white space and line terminators are removed from both
  ends. Of the code units ECMAScript lists, these fit a \<^typ>\<open>char\<close>.
\<close>

definition isWhiteSpace :: "char \<Rightarrow> bool" where
  "isWhiteSpace c \<longleftrightarrow>
     c \<in> {CHR 0x09, CHR 0x0A, CHR 0x0B, CHR 0x0C, CHR 0x0D, CHR 0x20, CHR 0xA0}"

definition trim :: "string \<Rightarrow> string" where
  "trim s = rev (dropWhile isWhiteSpace (rev (dropWhile isWhiteSpace s)))"

text \<open>A string used as a condition: \<open>undefined\<close>, \<open>null\<close> and \<open>''\<close> are falsy.\<close>

fun truthyString :: "string option \<Rightarrow> bool" where
  "truthyString None = False"
| "truthyString (Some s) = (s \<noteq> [])"

text \<open>
  The result of the completion call, with the fields the source probes and the types the
  client library gives them; a field that is missing is \<open>None\<close>.
\<close>

datatype part = Part (partText: "string option")

datatype content = Content (parts: "part list option")

datatype candidate = Candidate (content: "content option")

datatype wrapped = Wrapped (wrappedCandidates: "candidate list option")

record chatResult =
  response :: "wrapped option"            \<comment> \<open>\<open>response.response\<close>\<close>
  textField :: "string option"            \<comment> \<open>\<open>response.text\<close>\<close>
  candidates :: "candidate list option"   \<comment> \<open>\<open>response.candidates\<close>\<close>

datatype completion = Rejects | Resolves "chatResult option"

text \<open>
  The configuration read from the environment and the two external capabilities. The
  completion call is a function of what it is asked. \<open>startChat({ history })\<close> is
  handed the caller's own array, not a copy, so the chat may change it:
  \<open>historyAfter\<close> is that array as \<open>chat.sendMessage\<close> leaves it. A post to the
  delivery API is a function of what happened before it and of what is posted, \<open>True\<close>
  when the request resolves and \<open>False\<close> when it rejects.
\<close>

record payload =
  payloadTo :: string
  payloadText :: "string option"
  imageUrl :: "string option"
  videoUrl :: "string option"
  audioUrl :: "string option"
  documentUrl :: "string option"

record env =
  GEMINI_API_KEY :: "string option"
  WASENDER_API_TOKEN :: "string option"
  sendMessage :: "string \<Rightarrow> json list \<Rightarrow> completion"
  historyAfter :: "string \<Rightarrow> json list \<Rightarrow> json list"
  generateContent :: "string \<Rightarrow> completion"
  axiosPost :: "effect list \<Rightarrow> payload \<Rightarrow> bool"

definition apologyReply :: string where
  "apologyReply = ''Sorry, I'm having trouble connecting to my brain right now (API key issue).''"

definition errorReply :: string where
  "errorReply = ''I'm having trouble processing that request with my AI brain. Please try again later.''"

definition formatReply :: string where
  "formatReply = ''I received an unexpected response format from Gemini. Please try again.''"

definition unusualReply :: string where
  "unusualReply = ''I received an unusual response structure from Gemini. Please try again.''"

definition emptyReply :: string where
  "emptyReply = ''I received an empty or unexpected response from Gemini. Please try again.''"

text \<open>
  What the chain of conditions behind the completion call comes to: a text to trim, a
  \<open>TypeError\<close> from calling \<open>trim\<close> on a text that is not there, or no branch taken.
\<close>

datatype picked = Picked string | Threw | Unrecognised

text \<open>\<^verbatim>\<open>parts[0].text.trim()\<close> before the trimming.\<close>

fun firstPartText :: "part list \<Rightarrow> picked" where
  "firstPartText [] = Threw"
| "firstPartText (p # ps) = (case partText p of None \<Rightarrow> Threw | Some t \<Rightarrow> Picked t)"

text \<open>
  The first condition of the first copy: \<open>response.response\<close>, its \<open>candidates\<close>
  with positive length, \<open>candidates[0].content\<close>, its \<open>parts\<close> with positive length.
\<close>

definition nestedParts :: "chatResult \<Rightarrow> part list option" where
  "nestedParts r =
     (case response r of
        None \<Rightarrow> None
      | Some w \<Rightarrow>
          (case wrappedCandidates w of
             None \<Rightarrow> None
           | Some [] \<Rightarrow> None
           | Some (c # cs) \<Rightarrow>
               (case content c of
                  None \<Rightarrow> None
                | Some ct \<Rightarrow>
                    (case parts ct of
                       None \<Rightarrow> None
                     | Some [] \<Rightarrow> None
                     | Some (p # ps) \<Rightarrow> Some (p # ps)))))"

text \<open>
  The third condition of the first copy: \<open>response.candidates\<close> with positive length,
  \<open>candidates[0].content\<close> and its \<open>parts\<close>, which may be empty.
\<close>

definition directParts :: "chatResult \<Rightarrow> part list option" where
  "directParts r =
     (case candidates r of
        None \<Rightarrow> None
      | Some [] \<Rightarrow> None
      | Some (c # cs) \<Rightarrow>
          (case content c of
             None \<Rightarrow> None
           | Some ct \<Rightarrow> parts ct))"

definition pickText :: "chatResult option \<Rightarrow> picked" where
  "pickText res =
     (case res of
        None \<Rightarrow> Unrecognised
      | Some r \<Rightarrow>
          (case nestedParts r of
             Some ps \<Rightarrow> firstPartText ps
           | None \<Rightarrow>
               if truthyString (textField r) then
                 (case textField r of Some t \<Rightarrow> Picked t | None \<Rightarrow> Unrecognised)
               else
                 (case directParts r of
                    Some ps \<Rightarrow> firstPartText ps
                  | None \<Rightarrow> Unrecognised)))"

text \<open>
  \<open>getGeminiResponse\<close> of the first copy. Both branches on the history call
  \<open>chat.sendMessage(messageText)\<close>; a rejection and a \<open>TypeError\<close> inside the
  \<open>try\<close> end in the same \<open>catch\<close>.
\<close>

definition getGeminiResponse :: "env \<Rightarrow> string \<Rightarrow> json list \<Rightarrow> string" where
  "getGeminiResponse e messageText conversationHistory =
     (if \<not> truthyString (GEMINI_API_KEY e) then apologyReply
      else case sendMessage e messageText conversationHistory of
             Rejects \<Rightarrow> errorReply
           | Resolves res \<Rightarrow>
               (case pickText res of
                  Picked t \<Rightarrow> trim t
                | Threw \<Rightarrow> errorReply
                | Unrecognised \<Rightarrow> formatReply))"

text \<open>
  The caller's array when \<open>getGeminiResponse\<close> has returned. With a key, an array
  that is not empty is handed to \<open>startChat\<close> as \<open>history\<close>, in both copies; an
  empty one is not handed on.
\<close>

definition historyAfterResponse :: "env \<Rightarrow> string \<Rightarrow> json list \<Rightarrow> json list" where
  "historyAfterResponse e messageText conversationHistory =
     (if \<not> truthyString (GEMINI_API_KEY e) then conversationHistory
      else if conversationHistory \<noteq> [] then historyAfter e messageText conversationHistory
      else conversationHistory)"

text \<open>
  The conditions of the second copy: \<open>response.text\<close>, then \<open>response.candidates\<close>
  with \<^verbatim>\<open>candidates[0].content.parts[0].text.trim()\<close> inside a \<open>try\<close> of its own.
\<close>

definition deepText :: "candidate list \<Rightarrow> picked" where
  "deepText cs =
     (case cs of
        [] \<Rightarrow> Threw
      | c # _ \<Rightarrow>
          (case content c of
             None \<Rightarrow> Threw
           | Some ct \<Rightarrow>
               (case parts ct of
                  None \<Rightarrow> Threw
                | Some ps \<Rightarrow> firstPartText ps)))"

definition pickText2 :: "chatResult option \<Rightarrow> picked" where
  "pickText2 res =
     (case res of
        None \<Rightarrow> Unrecognised
      | Some r \<Rightarrow>
          if truthyString (textField r) then
            (case textField r of Some t \<Rightarrow> Picked t | None \<Rightarrow> Unrecognised)
          else
            (case candidates r of
               Some cs \<Rightarrow> deepText cs
             | None \<Rightarrow> Unrecognised))"

text \<open>
  \<open>getGeminiResponse\<close> of the second copy: \<open>chat.sendMessage\<close> with a history,
  \<open>model.generateContent\<close> without one, the same conditions behind both.
\<close>

definition getGeminiResponse2 :: "env \<Rightarrow> string \<Rightarrow> json list \<Rightarrow> string" where
  "getGeminiResponse2 e messageText conversationHistory =
     (if \<not> truthyString (GEMINI_API_KEY e) then apologyReply
      else case (if conversationHistory \<noteq> []
                 then sendMessage e messageText conversationHistory
                 else generateContent e messageText) of
             Rejects \<Rightarrow> errorReply
           | Resolves res \<Rightarrow>
               (case pickText2 res of
                  Picked t \<Rightarrow> trim t
                | Threw \<Rightarrow> unusualReply
                | Unrecognised \<Rightarrow> emptyReply))"


section \<open>Delivery: \<open>sendWhatsappMessage\<close> and the loop over the chunks\<close>

text \<open>
  The payload for each message type, \<open>None\<close> where the source returns \<open>false\<close>
  before posting. The \<open>if\<close> chain of the first copy and the \<open>switch\<close> of the second
  build the same payload and refuse the same calls.
\<close>

definition buildPayload :: "string \<Rightarrow> string \<Rightarrow> string \<Rightarrow> string option \<Rightarrow> payload option" where
  "buildPayload formattedRecipientNumber messageContent messageType mediaUrl =
     (let base = \<lparr>payloadTo = formattedRecipientNumber, payloadText = None, imageUrl = None,
                  videoUrl = None, audioUrl = None, documentUrl = None\<rparr>;
          caption = (if messageContent \<noteq> [] then Some messageContent else None)
      in if messageType = ''text'' then Some (base\<lparr>payloadText := Some messageContent\<rparr>)
         else if messageType = ''image'' \<and> truthyString mediaUrl
           then Some (base\<lparr>imageUrl := mediaUrl, payloadText := caption\<rparr>)
         else if messageType = ''video'' \<and> truthyString mediaUrl
           then Some (base\<lparr>videoUrl := mediaUrl, payloadText := caption\<rparr>)
         else if messageType = ''audio'' \<and> truthyString mediaUrl
           then Some (base\<lparr>audioUrl := mediaUrl\<rparr>)
         else if messageType = ''document'' \<and> truthyString mediaUrl
           then Some (base\<lparr>documentUrl := mediaUrl, payloadText := caption\<rparr>)
         else None)"

text \<open>
  \<^verbatim>\<open>recipientNumber.split('@')[0]\<close> when the number includes \<open>@s.whatsapp.net\<close>;
  \<open>split\<close> never returns the empty array.
\<close>

definition formatRecipient :: "string \<Rightarrow> string" where
  "formatRecipient recipientNumber =
     (if includes_js recipientNumber ''@s.whatsapp.net''
      then (case split_js recipientNumber ''@'' of x # xs \<Rightarrow> x | [] \<Rightarrow> recipientNumber)
      else recipientNumber)"

text \<open>
  \<open>sendWhatsappMessage\<close> (\<open>sendWhatsAppMessage\<close> in the second copy). It never
  throws: a rejected request is caught and reported as \<open>false\<close>. The invocation and its
  result are appended to the trace.
\<close>

definition sendWhatsappMessage ::
    "env \<Rightarrow> string \<Rightarrow> string \<Rightarrow> string \<Rightarrow> string option \<Rightarrow> world \<Rightarrow> bool \<times> world" where
  "sendWhatsappMessage e recipientNumber messageContent messageType mediaUrl w =
     (let success =
            (if \<not> truthyString (WASENDER_API_TOKEN e) then False
             else case buildPayload (formatRecipient recipientNumber) messageContent
                         messageType mediaUrl of
                    None \<Rightarrow> False
                  | Some p \<Rightarrow> axiosPost e (trace w) p)
      in (success, w\<lparr>trace := trace w @ [SendCall recipientNumber messageContent success]\<rparr>))"

text \<open>The wait between two chunks; its random length is not modelled.\<close>

definition delay :: "world \<Rightarrow> world" where
  "delay w = w\<lparr>trace := trace w @ [Delay]\<rparr>"

text \<open>
  The loop of both copies:
  \<^verbatim>\<open>
  for (let i = 0; i < messageChunks.length; i++) {
    const success = await sendWhatsappMessage(senderNumber, messageChunks[i], 'text');
    if (!success) { ...; break; }
    if (i < messageChunks.length - 1) { await new Promise(... setTimeout ...); }
  }
  \<close>
\<close>

function sendLoop :: "env \<Rightarrow> string \<Rightarrow> string list \<Rightarrow> nat \<Rightarrow> world \<Rightarrow> world" where
  "sendLoop e senderNumber messageChunks i w =
     (if i < length messageChunks then
        (let r = sendWhatsappMessage e senderNumber (messageChunks ! i) ''text'' None w
         in if \<not> fst r then snd r
            else sendLoop e senderNumber messageChunks (i + 1)
                   (if int i < int (length messageChunks) - 1 then delay (snd r) else snd r))
      else w)"
  by pat_completeness auto
termination
  by (relation "measure (\<lambda>(e, senderNumber, messageChunks, i, w). length messageChunks - i)") auto

declare sendLoop.simps [simp del]

section \<open>WebhookProcessor: the handler of \<open>POST /webhook\<close>\<close>

text \<open>
  The request body with the fields the handler reads, typed as the provider sends them.
  \<open>messages\<close> is \<open>data.data.messages\<close>, \<open>None\<close> when \<open>data.data\<close> or the field is
  missing. A missing \<open>fromMe\<close> is \<open>False\<close>; \<open>extendedText\<close> is
  \<open>extendedTextMessage.text\<close>, \<open>None\<close> when either is missing.
\<close>

record messageKey =
  fromMe :: bool
  remoteJid :: "string option"

record messageContent =
  conversation :: "string option"
  extendedText :: "string option"

record messageInfo =
  key :: "messageKey option"
  message :: "messageContent option"
  messageStubType :: "int option"

record webhookBody =
  event :: "string option"
  messages :: "messageInfo option"

record httpResponse =
  statusCode :: nat
  status :: string
  bodyMessage :: "string option"

definition acknowledged :: httpResponse where
  "acknowledged = \<lparr>statusCode = 200, status = ''success'', bodyMessage = None\<rparr>"

definition selfSentIgnored :: httpResponse where
  "selfSentIgnored =
     \<lparr>statusCode = 200, status = ''success'', bodyMessage = Some ''Self-sent message ignored''\<rparr>"

definition systemMessageProcessed :: httpResponse where
  "systemMessageProcessed =
     \<lparr>statusCode = 200, status = ''success'', bodyMessage = Some ''System message processed''\<rparr>"

definition incompleteSenderData :: httpResponse where
  "incompleteSenderData =
     \<lparr>statusCode = 400, status = ''error'', bodyMessage = Some ''Incomplete sender data''\<rparr>"

text \<open>\<^verbatim>\<open>messageInfo.key && messageInfo.key.fromMe\<close>.\<close>

definition selfSent :: "messageInfo \<Rightarrow> bool" where
  "selfSent messageInfo = (case key messageInfo of None \<Rightarrow> False | Some k \<Rightarrow> fromMe k)"

text \<open>\<^verbatim>\<open>messageInfo.key ? messageInfo.key.remoteJid : null\<close>.\<close>

definition senderOf :: "messageInfo \<Rightarrow> string option" where
  "senderOf messageInfo = (case key messageInfo of None \<Rightarrow> None | Some k \<Rightarrow> remoteJid k)"

text \<open>\<open>messageInfo.messageStubType\<close> as a condition: a missing type and \<open>0\<close> are falsy.\<close>

definition stubbed :: "messageInfo \<Rightarrow> bool" where
  "stubbed messageInfo =
     (case messageStubType messageInfo of None \<Rightarrow> False | Some n \<Rightarrow> n \<noteq> 0)"

text \<open>\<^verbatim>\<open>senderNumber.replace(/[^a-zA-Z0-9]/g, '_')\<close>.\<close>

definition safeChar :: "char \<Rightarrow> char" where
  "safeChar c =
     (if c \<in> set ''abcdefghijklmnopqrstuvwxyzABCDEFGHIJKLMNOPQRSTUVWXYZ0123456789''
      then c else CHR ''_'')"

definition safeSenderId :: "string \<Rightarrow> string" where
  "safeSenderId senderNumber = map safeChar senderNumber"

text \<open>
  The locals \<open>incomingMessageText\<close> and \<open>messageType\<close> after the block that reads the
  message. The first copy takes \<open>conversation\<close> when it is truthy.
\<close>

definition readMessage :: "messageInfo \<Rightarrow> string option \<times> string" where
  "readMessage messageInfo =
     (case message messageInfo of
        None \<Rightarrow> (None, ''unknown'')
      | Some msgContentObj \<Rightarrow>
          if truthyString (conversation msgContentObj)
            then (conversation msgContentObj, ''text'')
          else if truthyString (extendedText msgContentObj)
            then (extendedText msgContentObj, ''text'')
          else (None, ''unknown''))"

text \<open>The second copy takes \<open>conversation\<close> when the key is there, whatever it holds.\<close>

definition readMessage2 :: "messageInfo \<Rightarrow> string option \<times> string" where
  "readMessage2 messageInfo =
     (case message messageInfo of
        None \<Rightarrow> (None, ''unknown'')
      | Some msgContentObj \<Rightarrow>
          if conversation msgContentObj \<noteq> None
            then (conversation msgContentObj, ''text'')
          else if truthyString (extendedText msgContentObj)
            then (extendedText msgContentObj, ''text'')
          else (None, ''unknown''))"

text \<open>The two turns pushed by the first copy: \<^verbatim>\<open>{ role: r, parts: [{ text: t }] }\<close>.\<close>

definition turn :: "string \<Rightarrow> string \<Rightarrow> json" where
  "turn role t = JObj [(''role'', JStr role), (''parts'', JArr [JObj [(''text'', JStr t)]])]"

text \<open>The two turns pushed by the second copy: \<^verbatim>\<open>{ role: r, parts: [t] }\<close>.\<close>

definition turn2 :: "string \<Rightarrow> string \<Rightarrow> json" where
  "turn2 role t = JObj [(''role'', JStr role), (''parts'', JArr [JStr t])]"

text \<open>
  The branch of the first copy for a text message: load, generate, and, when the reply is
  not the empty string, split, deliver, push the two turns and save. The pushes go onto
  the loaded array as the completion call has left it.
\<close>

definition processText :: "env \<Rightarrow> string \<Rightarrow> string \<Rightarrow> world \<Rightarrow> world" where
  "processText e senderNumber incomingMessageText w =
     (let loaded = loadConversationHistory (safeSenderId senderNumber) w;
          geminiReply = getGeminiResponse e incomingMessageText loaded;
          conversationHistory = historyAfterResponse e incomingMessageText loaded
      in if geminiReply \<noteq> [] then
           (let messageChunks = splitMessage geminiReply 3 100;
                w1 = sendLoop e senderNumber messageChunks 0 w
            in saveConversationHistory (safeSenderId senderNumber)
                 (conversationHistory @ [turn ''user'' incomingMessageText, turn ''model'' geminiReply])
                 w1)
         else w)"

definition processText2 :: "env \<Rightarrow> string \<Rightarrow> string \<Rightarrow> world \<Rightarrow> world" where
  "processText2 e senderNumber incomingMessageText w =
     (let loaded = loadConversationHistory2 (safeSenderId senderNumber) w;
          geminiReply = getGeminiResponse2 e incomingMessageText loaded;
          conversationHistory = historyAfterResponse e incomingMessageText loaded
      in if geminiReply \<noteq> [] then
           (let messageChunks = splitMessage geminiReply 3 100;
                w1 = sendLoop e senderNumber messageChunks 0 w
            in saveConversationHistory (safeSenderId senderNumber)
                 (conversationHistory @ [turn2 ''user'' incomingMessageText, turn2 ''model'' geminiReply])
                 w1)
         else w)"

text \<open>
  The handler of the first copy. The stub check stands before the sender check. The
  branches that only log fall through to the plain acknowledgement. With a body typed as
  above nothing inside the \<open>try\<close> throws, so its \<open>catch\<close> with status 500 has no
  branch here.
\<close>

definition webhook :: "env \<Rightarrow> webhookBody \<Rightarrow> world \<Rightarrow> httpResponse \<times> world" where
  "webhook e body w =
     (case (if event body = Some ''messages.upsert'' then messages body else None) of
        None \<Rightarrow> (acknowledged, w)
      | Some messageInfo \<Rightarrow>
          if selfSent messageInfo then (selfSentIgnored, w)
          else
            (let senderNumber = senderOf messageInfo;
                 incomingMessageText = fst (readMessage messageInfo);
                 messageType = snd (readMessage messageInfo)
             in if stubbed messageInfo then (systemMessageProcessed, w)
                else if \<not> truthyString senderNumber then (incompleteSenderData, w)
                else
                  (case (senderNumber, incomingMessageText) of
                     (Some sender, Some t) \<Rightarrow>
                       if messageType = ''text'' \<and> t \<noteq> []
                       then (acknowledged, processText e sender t w)
                       else (acknowledged, w)
                   | _ \<Rightarrow> (acknowledged, w))))"

text \<open>The handler of the second copy. The sender check stands before the stub check.\<close>

definition webhook2 :: "env \<Rightarrow> webhookBody \<Rightarrow> world \<Rightarrow> httpResponse \<times> world" where
  "webhook2 e body w =
     (case (if event body = Some ''messages.upsert'' then messages body else None) of
        None \<Rightarrow> (acknowledged, w)
      | Some messageInfo \<Rightarrow>
          if selfSent messageInfo then (selfSentIgnored, w)
          else
            (let senderNumber = senderOf messageInfo
             in if \<not> truthyString senderNumber then (incompleteSenderData, w)
                else
                  (let incomingMessageText = fst (readMessage2 messageInfo);
                       messageType = snd (readMessage2 messageInfo)
                   in if stubbed messageInfo then (systemMessageProcessed, w)
                      else
                        (case (senderNumber, incomingMessageText) of
                           (Some sender, Some t) \<Rightarrow>
                             if messageType = ''text'' \<and> t \<noteq> []
                             then (acknowledged, processText2 e sender t w)
                             else (acknowledged, w)
                         | _ \<Rightarrow> (acknowledged, w)))))"


section \<open>The specification's notions\<close>

text \<open>
  The wrapping step as section 4.2 of the specification words it, read plainly. A
  paragraph no longer than \<open>maxCharsPerLine\<close> is one line. A longer one is repacked
  greedily: its first word starts the first line; a further word is added to the current
  line only if the line, one separating space and the word together are no longer than
  \<open>maxCharsPerLine\<close>; otherwise the current line is closed and a new line starts with
  that word. A single word longer than \<open>maxCharsPerLine\<close> is a line of its own.
\<close>

fun plainWrap :: "int \<Rightarrow> string list \<Rightarrow> string \<Rightarrow> string list" where
  "plainWrap maxCharsPerLine [] line = [line]"
| "plainWrap maxCharsPerLine (word # ws) line =
     (if int (length line) + 1 + int (length word) \<le> maxCharsPerLine
      then plainWrap maxCharsPerLine ws (line @ space @ word)
      else line # plainWrap maxCharsPerLine ws word)"

definition plainParagraph :: "int \<Rightarrow> string \<Rightarrow> string list" where
  "plainParagraph maxCharsPerLine paragraph =
     (if int (length paragraph) \<le> maxCharsPerLine then [paragraph]
      else case split_js paragraph space of
             [] \<Rightarrow> []
           | word # ws \<Rightarrow> plainWrap maxCharsPerLine ws word)"

definition plainLines :: "string \<Rightarrow> int \<Rightarrow> string list" where
  "plainLines text maxCharsPerLine =
     concat (map (plainParagraph maxCharsPerLine) (split_js text backslash_n))"

text \<open>
  A line within the bound, or a line that is a single word: splitting it at the spaces
  gives the line itself.
\<close>

definition lineOk :: "int \<Rightarrow> string \<Rightarrow> bool" where
  "lineOk maxCharsPerLine line \<longleftrightarrow>
     int (length line) \<le> maxCharsPerLine \<or> split_js line space = [line]"

text \<open>
  The chunker's state seen as groups of lines: the chunks closed so far are the groups
  joined by line feeds, the counter is the length of the open chunk, and for
  \<open>maxLines \<ge> 1\<close> no group is empty or longer than \<open>maxLines\<close>.
\<close>

definition grouped :: "int \<Rightarrow> chunker \<Rightarrow> string list list \<Rightarrow> bool" where
  "grouped maxLines st G \<longleftrightarrow>
     chunks st = map (join_js line_feed) G \<and>
     currentLineCount st = int (length (currentChunk st)) \<and>
     (1 \<le> maxLines \<longrightarrow>
        (\<forall>g\<in>set G. g \<noteq> [] \<and> int (length g) \<le> maxLines) \<and>
        int (length (currentChunk st)) \<le> maxLines)"

text \<open>
  A stored record as the specification words it: an array of objects each carrying a
  role and parts.
\<close>

fun carriesRoleAndParts :: "json \<Rightarrow> bool" where
  "carriesRoleAndParts (JObj kvs) = (''role'' \<in> set (map fst kvs) \<and> ''parts'' \<in> set (map fst kvs))"
| "carriesRoleAndParts v = False"

fun conversationRecord :: "json \<Rightarrow> bool" where
  "conversationRecord (JArr items) = list_all carriesRoleAndParts items"
| "conversationRecord v = False"

text \<open>A text without white space at either end.\<close>

definition trimmed :: "string \<Rightarrow> bool" where
  "trimmed s \<longleftrightarrow> s = [] \<or> (\<not> isWhiteSpace (hd s) \<and> \<not> isWhiteSpace (last s))"

text \<open>
  The tolerated shapes of a completion result as the specification words them, each
  with the text it yields: the nested shape \<open>response \<rightarrow> candidates \<rightarrow> content \<rightarrow> parts
  \<rightarrow> text\<close>, the direct text, and \<open>candidates \<rightarrow> content \<rightarrow> parts \<rightarrow> text\<close> on the
  result itself. \<open>partsUnder\<close> is the array of parts of the first candidate, where
  there is one; \<open>textUnder\<close> is the text of its first part, where there is one.
\<close>

definition partsUnder :: "candidate list option \<Rightarrow> part list option" where
  "partsUnder cs =
     Option.bind cs (\<lambda>l. case l of [] \<Rightarrow> None | c # _ \<Rightarrow> Option.bind (content c) parts)"

definition textUnder :: "candidate list option \<Rightarrow> string option" where
  "textUnder cs =
     Option.bind (partsUnder cs) (\<lambda>ps. case ps of [] \<Rightarrow> None | p # _ \<Rightarrow> partText p)"

definition nestedText :: "chatResult \<Rightarrow> string option" where
  "nestedText r = Option.bind (response r) (\<lambda>w. textUnder (wrappedCandidates w))"

definition directText :: "chatResult \<Rightarrow> string option" where
  "directText r = (if truthyString (textField r) then textField r else None)"

definition candidatesText :: "chatResult \<Rightarrow> string option" where
  "candidatesText r = textUnder (candidates r)"

text \<open>
  The nested shape is in the way: its parts are there and are not empty, whether or not
  the first of them carries a text.
\<close>

definition nestedInTheWay :: "chatResult \<Rightarrow> bool" where
  "nestedInTheWay r \<longleftrightarrow>
     (case Option.bind (response r) (\<lambda>w. partsUnder (wrappedCandidates w)) of
        None \<Rightarrow> False
      | Some ps \<Rightarrow> ps \<noteq> [])"

text \<open>
  A delivery as the specification words it, read off a trace: the chunks are sent to the
  recipient in order, one at a time; a send that reports failure is the last thing that
  happens; one wait follows a successful send exactly when another chunk is left, so none
  follows the final chunk.
\<close>

fun inOrderStopping :: "string \<Rightarrow> string list \<Rightarrow> effect list \<Rightarrow> bool" where
  "inOrderStopping recipient [] tr = (tr = [])"
| "inOrderStopping recipient (c # cs) [] = False"
| "inOrderStopping recipient (c # cs) (Delay # tr) = False"
| "inOrderStopping recipient (c # cs) (SendCall r x ok # tr) =
     (r = recipient \<and> x = c \<and>
      (if \<not> ok then tr = []
       else if cs = [] then tr = []
       else (case tr of
               Delay # tr' \<Rightarrow> inOrderStopping recipient cs tr'
             | _ \<Rightarrow> False)))"

text \<open>The loop over the chunks still to send, by recursion on them.\<close>

fun deliver :: "env \<Rightarrow> string \<Rightarrow> string list \<Rightarrow> world \<Rightarrow> world" where
  "deliver e senderNumber [] w = w"
| "deliver e senderNumber (c # cs) w =
     (let r = sendWhatsappMessage e senderNumber c ''text'' None w
      in if \<not> fst r then snd r
         else deliver e senderNumber cs (if cs \<noteq> [] then delay (snd r) else snd r))"


section \<open>Example inputs\<close>

text \<open>
  A world without files in which every write succeeds, and one in which every write
  fails at the open; a completion that resolves with a text under \<open>response.text\<close>;
  configured environments whose completion leaves the history array alone and whose
  second post, or every post, is rejected; a text message from a sender; and a stub
  notification that carries no sender.
\<close>

definition emptyWorld :: world where
  "emptyWorld = \<lparr>files = (\<lambda>p. NoFile), writes = (\<lambda>p. Written), trace = []\<rparr>"

definition readOnlyWorld :: world where
  "readOnlyWorld = \<lparr>files = (\<lambda>p. NoFile), writes = (\<lambda>p. OpenFails), trace = []\<rparr>"

definition answering :: "string \<Rightarrow> completion" where
  "answering t = Resolves (Some \<lparr>response = None, textField = Some t, candidates = None\<rparr>)"

definition secondPostFails :: env where
  "secondPostFails =
     \<lparr>GEMINI_API_KEY = Some ''key'', WASENDER_API_TOKEN = Some ''token'',
      sendMessage = (\<lambda>t h. answering '' hi ''), historyAfter = (\<lambda>t h. h),
      generateContent = (\<lambda>t. answering '' hi ''),
      axiosPost = (\<lambda>tr p. length tr \<noteq> 2)\<rparr>"

definition everyPostFails :: env where
  "everyPostFails =
     \<lparr>GEMINI_API_KEY = Some ''key'', WASENDER_API_TOKEN = Some ''token'',
      sendMessage = (\<lambda>t h. answering '' hi ''), historyAfter = (\<lambda>t h. h),
      generateContent = (\<lambda>t. answering '' hi ''),
      axiosPost = (\<lambda>tr p. False)\<rparr>"

definition textFrom :: "string \<Rightarrow> string \<Rightarrow> messageInfo" where
  "textFrom sender t =
     \<lparr>key = Some \<lparr>fromMe = False, remoteJid = Some sender\<rparr>,
      message = Some \<lparr>conversation = Some t, extendedText = None\<rparr>,
      messageStubType = None\<rparr>"

definition stubWithoutSender :: webhookBody where
  "stubWithoutSender =
     \<lparr>event = Some ''messages.upsert'',
      messages = Some \<lparr>key = None, message = None, messageStubType = Some 27\<rparr>\<rparr>"

text \<open>
  A completion result in the nested shape, the one the client library returns, and an
  environment whose chat, like the chat session of the client library, keeps the array it
  is handed as its history and pushes the request and the response onto it.
\<close>

definition nested :: "string \<Rightarrow> chatResult" where
  "nested t =
     \<lparr>response = Some (Wrapped (Some [Candidate (Some (Content (Some [Part (Some t)])))])),
      textField = None, candidates = None\<rparr>"

definition chatKeepsArray :: env where
  "chatKeepsArray =
     \<lparr>GEMINI_API_KEY = Some ''key'', WASENDER_API_TOKEN = Some ''token'',
      sendMessage = (\<lambda>t h. Resolves (Some (nested ''hi''))),
      historyAfter = (\<lambda>t h. h @
         [JObj [(''role'', JStr ''user''), (''parts'', JArr [JObj [(''text'', JStr t)]])],
          JObj [(''parts'', JArr [JObj [(''text'', JStr ''hi'')]]), (''role'', JStr ''model'')]]),
      generateContent = (\<lambda>t. Resolves (Some (nested ''hi''))),
      axiosPost = (\<lambda>tr p. True)\<rparr>"

text \<open>
  A completion result with its text under \<open>candidates\<close> on the result itself, and one
  whose nested shape is there without a text while \<open>response.text\<close> holds one.
\<close>

definition underCandidates :: "string \<Rightarrow> chatResult" where
  "underCandidates t =
     \<lparr>response = None, textField = None,
      candidates = Some [Candidate (Some (Content (Some [Part (Some t)])))]\<rparr>"

definition textlessNested :: chatResult where
  "textlessNested =
     \<lparr>response = Some (Wrapped (Some [Candidate (Some (Content (Some [Part None])))])),
      textField = Some ''hello'', candidates = None\<rparr>"

text \<open>A world in which the sender \<open>6@s\<close> has a stored history of two turns.\<close>

definition storedTurns :: "json list" where
  "storedTurns =
     [JObj [(''role'', JStr ''user''), (''parts'', JArr [JObj [(''text'', JStr ''one'')]])],
      JObj [(''role'', JStr ''model''), (''parts'', JArr [JObj [(''text'', JStr ''two'')]])]]"

definition knownSender :: world where
  "knownSender =
     \<lparr>files = (\<lambda>p. if p = ''conversations/6_s.json'' then Json (JArr storedTurns) else NoFile),
      writes = (\<lambda>p. Written), trace = []\<rparr>"

section \<open>Properties of \<open>splitMessage\<close>\<close>

subsection \<open>split and join\<close>

lemma splitFrom_free: "c \<notin> set s \<Longrightarrow> splitFrom [c] piece s = [piece @ s]"
  by (induction s arbitrary: piece) auto

lemma splitFrom_at_sep:
  "splitFrom [c] piece (xs @ c # ys) = splitFrom [c] piece xs @ splitFrom [c] [] ys"
  by (induction xs arbitrary: piece) auto

lemma splitFrom_pieces:
  "p \<in> set (splitFrom sep piece s) \<Longrightarrow> set p \<subseteq> set piece \<union> set s"
proof (induction sep piece s rule: splitFrom.induct)
  case (1 sep piece)
  then show ?case by simp
next
  case (2 sep piece c cs)
  show ?case
  proof (cases "sep \<noteq> [] \<and> take (length sep) (c # cs) = sep")
    case True
    with "2.prems" have "p = piece \<or> p \<in> set (splitFrom sep [] (drop (length sep) (c # cs)))"
      by simp
    then show ?thesis
    proof
      assume "p = piece" then show ?thesis by auto
    next
      assume "p \<in> set (splitFrom sep [] (drop (length sep) (c # cs)))"
      with "2.IH"(1) True have "set p \<subseteq> set [] \<union> set (drop (length sep) (c # cs))" by blast
      moreover have "set (drop (length sep) (c # cs)) \<subseteq> set (c # cs)" by (rule set_drop_subset)
      ultimately show ?thesis by auto
    qed
  next
    case False
    with "2.prems" have "p \<in> set (splitFrom sep (piece @ [c]) cs)" by auto
    with "2.IH"(2) False have "set p \<subseteq> set (piece @ [c]) \<union> set cs" by blast
    then show ?thesis by auto
  qed
qed

lemma splitFrom_single_length:
  "p \<in> set (splitFrom [c] piece s) \<Longrightarrow> length p \<le> length piece + length s"
proof (induction s arbitrary: piece)
  case Nil then show ?case by simp
next
  case (Cons x xs)
  then show ?case by (fastforce split: if_splits)
qed

lemma splitFrom_single_sepfree:
  "p \<in> set (splitFrom [c] piece s) \<Longrightarrow> c \<notin> set piece \<Longrightarrow> c \<notin> set p"
proof (induction s arbitrary: piece)
  case Nil then show ?case by simp
next
  case (Cons x xs)
  then show ?case by (fastforce split: if_splits)
qed

lemma splitFrom_nonempty: "splitFrom sep piece s \<noteq> []"
  by (induction sep piece s rule: splitFrom.induct) auto

lemma split_js_free: "c \<notin> set s \<Longrightarrow> split_js s [c] = [s]"
  by (simp add: split_js_def splitFrom_free)

lemma split_js_join_Cons:
  "split_js (join_js [c] (l # ls)) [c] = concat (map (\<lambda>l. split_js l [c]) (l # ls))"
proof (induction ls arbitrary: l)
  case Nil
  then show ?case by simp
next
  case (Cons y ys)
  have "split_js (join_js [c] (l # y # ys)) [c] = splitFrom [c] [] (l @ c # join_js [c] (y # ys))"
    by (simp add: split_js_def)
  also have "\<dots> = splitFrom [c] [] l @ splitFrom [c] [] (join_js [c] (y # ys))"
    by (rule splitFrom_at_sep)
  also have "\<dots> = split_js l [c] @ split_js (join_js [c] (y # ys)) [c]"
    by (simp add: split_js_def)
  finally show ?case using Cons.IH [of y] by simp
qed

lemma split_js_join:
  assumes "ls \<noteq> []"
  shows "split_js (join_js [c] ls) [c] = concat (map (\<lambda>l. split_js l [c]) ls)"
proof (cases ls)
  case Nil
  with assms show ?thesis by simp
next
  case (Cons l ls')
  show ?thesis unfolding Cons by (rule split_js_join_Cons)
qed

lemma split_js_join_free:
  assumes "ls \<noteq> []" and "\<forall>l\<in>set ls. c \<notin> set l"
  shows "split_js (join_js [c] ls) [c] = ls"
proof -
  have "concat (map (\<lambda>l. split_js l [c]) ls) = concat (map (\<lambda>l. [l]) ls)"
    using assms(2) by (intro arg_cong [where f = concat] map_cong) (simp_all add: split_js_free)
  also have "\<dots> = ls" by (induction ls) simp_all
  finally show ?thesis using split_js_join [OF assms(1), of c] by simp
qed

lemma split_js_pieces: "p \<in> set (split_js s sep) \<Longrightarrow> set p \<subseteq> set s"
  using splitFrom_pieces [of p sep "[]" s] by (auto simp: split_js_def split: if_splits)

lemma split_js_single_length: "p \<in> set (split_js s [c]) \<Longrightarrow> length p \<le> length s"
  using splitFrom_single_length [of p c "[]" s] by (simp add: split_js_def)

lemma split_js_single_sepfree: "p \<in> set (split_js s [c]) \<Longrightarrow> c \<notin> set p"
  using splitFrom_single_sepfree [of p c "[]" s] by (simp add: split_js_def)

lemma splitFrom_no_match:
  "\<not> includes_js s sep \<Longrightarrow> splitFrom sep piece s = [piece @ s]"
  by (induction s arbitrary: piece) auto

lemma split_js_no_match:
  "\<not> includes_js s sep \<Longrightarrow> split_js s sep = [s]"
proof -
  assume a: "\<not> includes_js s sep"
  then have "sep \<noteq> []" by (cases s) auto
  with a show ?thesis by (simp add: split_js_def splitFrom_no_match)
qed

subsection \<open>The chunker as a fold over the pushed lines\<close>

lemma wordLoop_wordLines:
  "(case wordLoop maxLines m ws line n st of
      (line', st') \<Rightarrow> if line' \<noteq> [] then pushLine maxLines (join_js space line') st' else st')
   = foldl (\<lambda>s l. pushLine maxLines l s) st (wordLines m ws line n)"
  by (induction ws arbitrary: line n st) simp_all

lemma paragraphStep_paragraphLines:
  "paragraphStep maxLines m st p = foldl (\<lambda>s l. pushLine maxLines l s) st (paragraphLines m p)"
  using wordLoop_wordLines [of maxLines m "split_js p space" "[]" 0 st]
  by (simp add: paragraphStep_def paragraphLines_def)

lemma foldl_paragraphStep:
  "foldl (paragraphStep maxLines m) st ps
   = foldl (\<lambda>s l. pushLine maxLines l s) st (concat (map (paragraphLines m) ps))"
  by (induction ps arbitrary: st) (simp_all add: paragraphStep_paragraphLines)


lemma grouped_pushLine:
  assumes "grouped maxLines st G"
  shows "\<exists>G'. grouped maxLines (pushLine maxLines l st) G' \<and>
           concat G' @ currentChunk (pushLine maxLines l st) = concat G @ currentChunk st @ [l]"
proof (cases "currentLineCount st \<ge> maxLines")
  case True
  with assms have "grouped maxLines (pushLine maxLines l st) (G @ [currentChunk st])"
    by (auto simp: grouped_def pushLine_def)
  moreover from True
  have "concat (G @ [currentChunk st]) @ currentChunk (pushLine maxLines l st)
        = concat G @ currentChunk st @ [l]"
    by (simp add: pushLine_def)
  ultimately show ?thesis by blast
next
  case False
  with assms have "grouped maxLines (pushLine maxLines l st) G"
    by (auto simp: grouped_def pushLine_def)
  moreover from False
  have "concat G @ currentChunk (pushLine maxLines l st) = concat G @ currentChunk st @ [l]"
    by (simp add: pushLine_def)
  ultimately show ?thesis by blast
qed

lemma grouped_foldl:
  assumes "grouped maxLines st G"
  shows "\<exists>G'. grouped maxLines (foldl (\<lambda>s l. pushLine maxLines l s) st ls) G' \<and>
           concat G' @ currentChunk (foldl (\<lambda>s l. pushLine maxLines l s) st ls)
           = concat G @ currentChunk st @ ls"
  using assms
proof (induction ls arbitrary: st G)
  case Nil
  then show ?case by auto
next
  case (Cons l ls)
  from grouped_pushLine [OF Cons.prems, of l] obtain G1 where
    g1: "grouped maxLines (pushLine maxLines l st) G1" and
    c1: "concat G1 @ currentChunk (pushLine maxLines l st) = concat G @ currentChunk st @ [l]"
    by blast
  from Cons.IH [OF g1] obtain G2 where
    g2: "grouped maxLines (foldl (\<lambda>s l. pushLine maxLines l s) (pushLine maxLines l st) ls) G2" and
    c2: "concat G2 @ currentChunk (foldl (\<lambda>s l. pushLine maxLines l s) (pushLine maxLines l st) ls)
         = concat G1 @ currentChunk (pushLine maxLines l st) @ ls"
    by blast
  from c1 c2 have "concat G2 @ currentChunk (foldl (\<lambda>s l. pushLine maxLines l s) (pushLine maxLines l st) ls)
         = concat G @ currentChunk st @ l # ls"
    by (metis append.assoc append_Cons append_Nil)
  with g2 show ?case by auto
qed

lemma splitMessage_fold:
  "splitMessage text maxLines m =
     (let st = foldl (\<lambda>s l. pushLine maxLines l s) initialChunker (pushedLines text m)
      in if currentChunk st \<noteq> [] then chunks st @ [join_js line_feed (currentChunk st)]
         else chunks st)"
  by (simp add: splitMessage_def pushedLines_def foldl_paragraphStep)

lemma splitMessage_groups:
  "\<exists>G. splitMessage text maxLines m = map (join_js line_feed) G \<and>
        concat G = pushedLines text m \<and>
        (1 \<le> maxLines \<longrightarrow> (\<forall>g\<in>set G. g \<noteq> [] \<and> int (length g) \<le> maxLines))"
proof -
  let ?st = "foldl (\<lambda>s l. pushLine maxLines l s) initialChunker (pushedLines text m)"
  have "grouped maxLines initialChunker []"
    by (simp add: grouped_def initialChunker_def)
  from grouped_foldl [OF this, of "pushedLines text m"] obtain G where
    g: "grouped maxLines ?st G" and c: "concat G @ currentChunk ?st = pushedLines text m"
    by (auto simp: initialChunker_def)
  show ?thesis
  proof (cases "currentChunk ?st = []")
    case True
    with g c have "splitMessage text maxLines m = map (join_js line_feed) G"
      "concat G = pushedLines text m"
      by (simp_all add: splitMessage_fold grouped_def)
    with g show ?thesis unfolding grouped_def by blast
  next
    case False
    with g c have "splitMessage text maxLines m = map (join_js line_feed) (G @ [currentChunk ?st])"
      "concat (G @ [currentChunk ?st]) = pushedLines text m"
      by (simp_all add: splitMessage_fold grouped_def)
    moreover from g False
    have "1 \<le> maxLines \<longrightarrow> (\<forall>g\<in>set (G @ [currentChunk ?st]). g \<noteq> [] \<and> int (length g) \<le> maxLines)"
      unfolding grouped_def by auto
    ultimately show ?thesis by blast
  qed
qed


subsection \<open>Properties of the pushed lines\<close>

lemma splitFrom_single_two:
  "c \<in> set s \<Longrightarrow> 2 \<le> length (splitFrom [c] piece s)"
proof (induction s arbitrary: piece)
  case Nil
  then show ?case by simp
next
  case (Cons x xs)
  show ?case
  proof (cases "x = c")
    case True
    have "splitFrom [c] [] xs \<noteq> []" by (rule splitFrom_nonempty)
    then have "1 \<le> length (splitFrom [c] [] xs)" by (cases "splitFrom [c] [] xs") simp_all
    with True show ?thesis by simp
  next
    case False
    with Cons.prems have "c \<in> set xs" by simp
    from Cons.IH [OF this] False show ?thesis by simp
  qed
qed

lemma single_word_iff: "split_js s [c] = [s] \<longleftrightarrow> c \<notin> set s"
proof
  assume a: "split_js s [c] = [s]"
  show "c \<notin> set s"
  proof
    assume "c \<in> set s"
    from splitFrom_single_two [OF this, of "[]"] a show False by (simp add: split_js_def)
  qed
next
  assume "c \<notin> set s"
  then show "split_js s [c] = [s]" by (rule split_js_free)
qed

lemma lineOk_iff: "lineOk m l \<longleftrightarrow> int (length l) \<le> m \<or> CHR '' '' \<notin> set l"
  by (simp add: lineOk_def space_def single_word_iff)

lemma length_join_Cons_snoc:
  "length (join_js [c] ((x # xs) @ [w])) = length (join_js [c] (x # xs)) + 1 + length w"
  by (induction xs arbitrary: x) simp_all

lemma length_join_snoc:
  "line \<noteq> [] \<Longrightarrow> length (join_js [c] (line @ [w])) = length (join_js [c] line) + 1 + length w"
  using length_join_Cons_snoc [of c _ _ w] by (cases line) simp_all

lemma wordLines_lineOk:
  assumes "\<forall>w\<in>set ws. CHR '' '' \<notin> set w"
    and "lineOk m (join_js space line)"
    and "line \<noteq> [] \<longrightarrow> int (length (join_js space line)) \<le> n"
    and "line = [] \<longrightarrow> 0 \<le> n"
  shows "\<forall>l\<in>set (wordLines m ws line n). lineOk m l"
  using assms
proof (induction ws arbitrary: line n)
  case Nil
  then show ?case by simp
next
  case (Cons w ws)
  from Cons.prems(1) have wfree: "CHR '' '' \<notin> set w" and rest: "\<forall>w\<in>set ws. CHR '' '' \<notin> set w"
    by simp_all
  show ?case
  proof (cases "n + int (length w) + 1 \<le> m")
    case True
    have len: "int (length (join_js space (line @ [w]))) \<le> n + int (length w) + 1"
    proof (cases "line = []")
      case True
      with Cons.prems(4) show ?thesis by simp
    next
      case False
      with Cons.prems(3) length_join_snoc [OF False, of "CHR '' ''" w] show ?thesis
        by (simp add: space_def)
    qed
    with True have ok: "lineOk m (join_js space (line @ [w]))" by (simp add: lineOk_iff)
    from Cons.IH [OF rest ok] len
    have "\<forall>l\<in>set (wordLines m ws (line @ [w]) (n + int (length w) + 1)). lineOk m l" by simp
    with True show ?thesis by simp
  next
    case False
    from wfree have ok: "lineOk m (join_js space [w])" by (simp add: lineOk_iff)
    from Cons.IH [OF rest ok, of "int (length w)"]
    have "\<forall>l\<in>set (wordLines m ws [w] (int (length w))). lineOk m l" by simp
    with False Cons.prems(2) show ?thesis by simp
  qed
qed

lemma paragraphLines_lineOk: "l \<in> set (paragraphLines m p) \<Longrightarrow> lineOk m l"
proof (cases "int (length p) \<le> m")
  case True
  assume "l \<in> set (paragraphLines m p)"
  with True show ?thesis by (simp add: paragraphLines_def lineOk_def)
next
  case False
  assume l: "l \<in> set (paragraphLines m p)"
  have words: "\<forall>w\<in>set (split_js p space). CHR '' '' \<notin> set w"
    using split_js_single_sepfree [of _ p "CHR '' ''"] by (auto simp: space_def)
  have "\<forall>l\<in>set (wordLines m (split_js p space) [] 0). lineOk m l"
    by (rule wordLines_lineOk [OF words]) (simp_all add: lineOk_iff)
  with l False show ?thesis by (simp add: paragraphLines_def)
qed

lemma pushedLines_lineOk: "l \<in> set (pushedLines text m) \<Longrightarrow> lineOk m l"
  by (auto simp: pushedLines_def paragraphLines_lineOk)

lemma set_join_js: "set (join_js sep ls) \<subseteq> set sep \<union> \<Union> (set ` set ls)"
  by (induction sep ls rule: join_js.induct) auto

lemma wordLines_chars:
  "l \<in> set (wordLines m ws line n) \<Longrightarrow>
     set l \<subseteq> {CHR '' ''} \<union> \<Union> (set ` set line) \<union> \<Union> (set ` set ws)"
proof (induction ws arbitrary: line n)
  case Nil
  with set_join_js [of space line] show ?case by (auto simp: space_def split: if_splits)
next
  case (Cons w ws)
  show ?case
  proof (cases "n + int (length w) + 1 \<le> m")
    case True
    with Cons.prems have "l \<in> set (wordLines m ws (line @ [w]) (n + int (length w) + 1))" by simp
    from Cons.IH [OF this] show ?thesis by auto
  next
    case False
    with Cons.prems have "l = join_js space line \<or> l \<in> set (wordLines m ws [w] (int (length w)))"
      by simp
    then show ?thesis
    proof
      assume "l = join_js space line"
      with set_join_js [of space line] show ?thesis by (auto simp: space_def)
    next
      assume "l \<in> set (wordLines m ws [w] (int (length w)))"
      from Cons.IH [OF this] show ?thesis by auto
    qed
  qed
qed

lemma paragraphLines_chars:
  assumes "l \<in> set (paragraphLines m p)"
  shows "set l \<subseteq> {CHR '' ''} \<union> set p"
proof (cases "int (length p) \<le> m")
  case True
  with assms show ?thesis by (auto simp: paragraphLines_def)
next
  case False
  with assms have "l \<in> set (wordLines m (split_js p space) [] 0)" by (simp add: paragraphLines_def)
  from wordLines_chars [OF this] split_js_pieces [of _ p space] show ?thesis by auto
qed

lemma pushedLines_chars:
  assumes "l \<in> set (pushedLines text m)"
  shows "set l \<subseteq> {CHR '' ''} \<union> set text"
proof -
  from assms obtain p where p: "p \<in> set (split_js text backslash_n)" and l: "l \<in> set (paragraphLines m p)"
    by (auto simp: pushedLines_def)
  from paragraphLines_chars [OF l] split_js_pieces [OF p] show ?thesis by auto
qed

lemma pushedLines_line_feed_free:
  "CHR 0x0A \<notin> set text \<Longrightarrow> l \<in> set (pushedLines text m) \<Longrightarrow> CHR 0x0A \<notin> set l"
  using pushedLines_chars [of l "text" m] by auto


lemma filter_splitFrom:
  "filter (\<lambda>x. x \<noteq> c) (concat (splitFrom [c] piece s)) = filter (\<lambda>x. x \<noteq> c) (piece @ s)"
  by (induction s arbitrary: piece) simp_all

lemma filter_join_js:
  "filter (\<lambda>x. x \<noteq> c) (join_js [c] ls) = filter (\<lambda>x. x \<noteq> c) (concat ls)"
  by (induction "[c]" ls rule: join_js.induct) simp_all

lemma filter_wordLines:
  "filter (\<lambda>x. x \<noteq> CHR '' '') (concat (wordLines m ws line n))
   = filter (\<lambda>x. x \<noteq> CHR '' '') (concat line @ concat ws)"
  by (induction ws arbitrary: line n) (simp_all add: space_def filter_join_js)

lemma filter_paragraphLines:
  "filter (\<lambda>x. x \<noteq> CHR '' '') (concat (paragraphLines m p)) = filter (\<lambda>x. x \<noteq> CHR '' '') p"
  using filter_splitFrom [of "CHR '' ''" "[]" p]
  by (simp add: paragraphLines_def filter_wordLines split_js_def space_def)

lemma splitFrom_marker:
  "\<not> includes_js a backslash_n \<Longrightarrow>
     splitFrom backslash_n piece (a @ backslash_n @ rest)
     = (piece @ a) # splitFrom backslash_n [] rest"
proof (induction a arbitrary: piece)
  case Nil
  then show ?case by (simp add: backslash_n_def)
next
  case (Cons c cs)
  from Cons.prems
  have here: "take (length backslash_n) (c # cs) \<noteq> backslash_n"
    and later: "\<not> includes_js cs backslash_n"
    by simp_all
  have nm: "take (length backslash_n) (c # cs @ backslash_n @ rest) \<noteq> backslash_n"
  proof (cases cs)
    case Nil
    then show ?thesis by (simp add: backslash_n_def)
  next
    case (Cons d ds)
    with here show ?thesis by (simp add: backslash_n_def)
  qed
  have "splitFrom backslash_n piece (c # cs @ backslash_n @ rest)
        = (if backslash_n \<noteq> [] \<and> take (length backslash_n) (c # cs @ backslash_n @ rest) = backslash_n
           then piece # splitFrom backslash_n [] (drop (length backslash_n) (c # cs @ backslash_n @ rest))
           else splitFrom backslash_n (piece @ [c]) (cs @ backslash_n @ rest))"
    by (rule splitFrom.simps(2))
  also from nm have "\<dots> = splitFrom backslash_n (piece @ [c]) (cs @ backslash_n @ rest)"
    by (simp only: simp_thms if_False)
  also from Cons.IH [OF later, of "piece @ [c]"]
  have "\<dots> = ((piece @ [c]) @ cs) # splitFrom backslash_n [] rest" .
  finally show ?case by simp
qed

lemma short_paragraphs_are_lines:
  "\<forall>p\<in>set ps. int (length p) \<le> m \<Longrightarrow>
     concat (map (paragraphLines m) ps) = ps \<and> concat (map (plainParagraph m) ps) = ps"
  by (induction ps) (simp_all add: paragraphLines_def plainParagraph_def)

subsection \<open>The claims about the chunker\<close>

text \<open>
  Claim C1, as far as the code goes. Every chunk of \<open>splitMessage\<close>, split at the line
  feeds, gives lines that are within \<open>maxCharsPerLine\<close> or are a single word; and it
  gives at most \<open>maxLines\<close> of them when \<open>maxLines\<close> is at least one and the text
  holds no line feed of its own.
\<close>

theorem splitMessage_bounds:
  "\<forall>c\<in>set (splitMessage text maxLines m).
     (1 \<le> maxLines \<and> CHR 0x0A \<notin> set text \<longrightarrow> int (length (split_js c line_feed)) \<le> maxLines) \<and>
     (\<forall>l\<in>set (split_js c line_feed). lineOk m l)"
proof
  fix c assume c: "c \<in> set (splitMessage text maxLines m)"
  from splitMessage_groups [of "text" maxLines m] obtain G where
    sm: "splitMessage text maxLines m = map (join_js line_feed) G" and
    cg: "concat G = pushedLines text m" and
    gb: "1 \<le> maxLines \<longrightarrow> (\<forall>g\<in>set G. g \<noteq> [] \<and> int (length g) \<le> maxLines)"
    by blast
  from c sm obtain g where g: "g \<in> set G" and cj: "c = join_js line_feed g" by auto
  from g cg have lines: "set g \<subseteq> set (pushedLines text m)" by (metis set_concat UN_upper)
  have count: "int (length (split_js c line_feed)) \<le> maxLines"
    if "1 \<le> maxLines" and "CHR 0x0A \<notin> set text"
  proof -
    from that(1) gb g have ne: "g \<noteq> []" and le: "int (length g) \<le> maxLines" by auto
    from that(2) lines have "\<forall>l\<in>set g. CHR 0x0A \<notin> set l"
      using pushedLines_line_feed_free [of "text" _ m] by blast
    from split_js_join_free [OF ne this] have "split_js c line_feed = g"
      by (simp add: cj line_feed_def)
    with le show ?thesis by simp
  qed
  have ok: "lineOk m l" if l: "l \<in> set (split_js c line_feed)" for l
  proof (cases "g = []")
    case True
    with l cj have "l = []" by (simp add: split_js_def line_feed_def)
    then show ?thesis by (simp add: lineOk_iff)
  next
    case False
    from split_js_join [OF False, of "CHR 0x0A"] l cj
    obtain l0 where l0: "l0 \<in> set g" and p: "l \<in> set (split_js l0 [CHR 0x0A])"
      by (auto simp: line_feed_def)
    from l0 lines have "lineOk m l0" by (auto intro: pushedLines_lineOk)
    moreover from p have "length l \<le> length l0" by (rule split_js_single_length)
    moreover from p have "set l \<subseteq> set l0" by (rule split_js_pieces)
    ultimately show ?thesis by (auto simp: lineOk_iff)
  qed
  from count ok
  show "(1 \<le> maxLines \<and> CHR 0x0A \<notin> set text \<longrightarrow> int (length (split_js c line_feed)) \<le> maxLines) \<and>
     (\<forall>l\<in>set (split_js c line_feed). lineOk m l)" by blast
qed

theorem splitMessage_bounds_witness:
  "splitMessage ''aa bb cc dd'' 2 5 = [''aa\<newline>bb cc'', ''dd''] \<and>
   int (length (split_js ''aa\<newline>bb cc'' line_feed)) \<le> 2 \<and>
   lineOk 5 ''bb cc'' \<and> lineOk 5 ''dd''"
proof -
  have sm: "splitMessage ''aa bb cc dd'' 2 5 = [''aa\<newline>bb cc'', ''dd'']"
    by (simp add: splitMessage_def split_js_def paragraphStep_def pushLine_def
        initialChunker_def backslash_n_def space_def line_feed_def)
  have sp: "split_js ''aa\<newline>bb cc'' line_feed = [''aa'', ''bb cc'']"
    by (simp add: split_js_def line_feed_def)
  have sd: "split_js ''dd'' line_feed = [''dd'']"
    by (simp add: split_js_def line_feed_def)
  from splitMessage_bounds [of "''aa bb cc dd''" 2 5] sm sp sd show ?thesis
    by simp
qed

text \<open>
  A text of seven characters with three line feeds comes back as one chunk of one
  emitted line, which reads as four lines; and with \<open>maxLines = 0\<close> a chunk of one
  line follows an empty chunk.
\<close>

theorem splitMessage_bounds_counterexample:
  "splitMessage ''a\<newline>b\<newline>c\<newline>d'' 3 100 = [''a\<newline>b\<newline>c\<newline>d''] \<and>
   \<not> int (length (split_js ''a\<newline>b\<newline>c\<newline>d'' line_feed)) \<le> 3 \<and>
   splitMessage ''a'' 0 100 = [[], ''a''] \<and>
   \<not> int (length (split_js ''a'' line_feed)) \<le> 0"
  by (simp add: splitMessage_def split_js_def paragraphStep_def pushLine_def
      initialChunker_def backslash_n_def space_def line_feed_def)

text \<open>
  Claim C2, as far as the code goes. When \<open>maxLines\<close> is at least one and the text
  holds no line feed of its own, splitting every chunk at the line feeds and putting the
  results together gives exactly the lines that \<open>splitMessage\<close> pushed, in their
  order: the chunks lose no line, repeat none and keep the order. Where no paragraph is
  longer than \<open>maxCharsPerLine\<close> these are the lines of section 4.2, the paragraphs
  themselves.
\<close>

theorem splitMessage_reconstructs:
  assumes "1 \<le> maxLines" and "CHR 0x0A \<notin> set text"
  shows "concat (map (\<lambda>c. split_js c line_feed) (splitMessage text maxLines m))
           = pushedLines text m \<and>
         ((\<forall>p\<in>set (split_js text backslash_n). int (length p) \<le> m) \<longrightarrow>
            concat (map (\<lambda>c. split_js c line_feed) (splitMessage text maxLines m))
              = plainLines text m \<and>
            plainLines text m = split_js text backslash_n)"
proof -
  from splitMessage_groups [of "text" maxLines m] assms(1) obtain G where
    sm: "splitMessage text maxLines m = map (join_js line_feed) G" and
    cg: "concat G = pushedLines text m" and
    gb: "\<forall>g\<in>set G. g \<noteq> []"
    by blast
  have "split_js (join_js line_feed g) line_feed = g" if g: "g \<in> set G" for g
  proof -
    from g cg have "set g \<subseteq> set (pushedLines text m)" by (metis set_concat UN_upper)
    with assms(2) have "\<forall>l\<in>set g. CHR 0x0A \<notin> set l"
      using pushedLines_line_feed_free [of "text" _ m] by blast
    from split_js_join_free [OF _ this] gb g show ?thesis by (simp add: line_feed_def)
  qed
  then have "map (\<lambda>c. split_js c line_feed) (map (join_js line_feed) G) = G"
    by (simp add: map_idI)
  with sm cg
  have one: "concat (map (\<lambda>c. split_js c line_feed) (splitMessage text maxLines m))
               = pushedLines text m" by simp
  have two: "pushedLines text m = plainLines text m \<and> plainLines text m = split_js text backslash_n"
    if "\<forall>p\<in>set (split_js text backslash_n). int (length p) \<le> m"
    using that short_paragraphs_are_lines [of "split_js text backslash_n" m]
    by (simp add: pushedLines_def plainLines_def)
  from one two show ?thesis by simp
qed

theorem splitMessage_reconstructs_witness:
  "concat (map (\<lambda>c. split_js c line_feed) (splitMessage ''aa bb cc dd'' 2 5))
     = [''aa'', ''bb cc'', ''dd''] \<and>
   pushedLines ''aa bb cc dd'' 5 = [''aa'', ''bb cc'', ''dd''] \<and>
   concat (map (\<lambda>c. split_js c line_feed) (splitMessage (''aa'' @ backslash_n @ ''bb'') 2 5))
     = [''aa'', ''bb''] \<and>
   plainLines (''aa'' @ backslash_n @ ''bb'') 5 = [''aa'', ''bb'']"
proof -
  have gl: "pushedLines ''aa bb cc dd'' 5 = [''aa'', ''bb cc'', ''dd'']"
    by (simp add: pushedLines_def paragraphLines_def split_js_def backslash_n_def space_def)
  have sp: "split_js (''aa'' @ backslash_n @ ''bb'') backslash_n = [''aa'', ''bb'']"
    by (simp add: split_js_def backslash_n_def)
  have h: "(1::int) \<le> 2" "CHR 0x0A \<notin> set ''aa bb cc dd''"
    "CHR 0x0A \<notin> set (''aa'' @ backslash_n @ ''bb'')"
    by (simp_all add: backslash_n_def)
  from splitMessage_reconstructs [OF h(1) h(2), of 5] gl
  have a: "concat (map (\<lambda>c. split_js c line_feed) (splitMessage ''aa bb cc dd'' 2 5))
     = [''aa'', ''bb cc'', ''dd'']" by simp
  note t = splitMessage_reconstructs [OF h(1) h(3), of 5]
  have prem: "\<forall>p\<in>set (split_js (''aa'' @ backslash_n @ ''bb'') backslash_n). int (length p) \<le> 5"
    by (simp only: sp) simp
  from t prem
  have b: "concat (map (\<lambda>c. split_js c line_feed) (splitMessage (''aa'' @ backslash_n @ ''bb'') 2 5))
     = plainLines (''aa'' @ backslash_n @ ''bb'') 5"
    and c': "plainLines (''aa'' @ backslash_n @ ''bb'') 5
     = split_js (''aa'' @ backslash_n @ ''bb'') backslash_n"
    by blast+
  from c' sp have c: "plainLines (''aa'' @ backslash_n @ ''bb'') 5 = [''aa'', ''bb'']"
    by (rule trans)
  from b c
  have b': "concat (map (\<lambda>c. split_js c line_feed) (splitMessage (''aa'' @ backslash_n @ ''bb'') 2 5))
     = [''aa'', ''bb'']"
    by (rule trans)
  from a gl b' c show ?thesis by blast
qed

text \<open>
  With a line feed in the text the chunk reads as two lines where the wrapping step made
  one. And in a wrapped paragraph the first word is charged a separating space that is
  not there, so its first line closes one character early: of \<open>ab cd e\<close> at width five
  the code makes \<open>ab\<close> and \<open>cd e\<close>, section 4.2 makes \<open>ab cd\<close> and \<open>e\<close>.
\<close>

theorem splitMessage_reconstructs_counterexample:
  "concat (map (\<lambda>c. split_js c line_feed) (splitMessage ''a\<newline>b'' 3 100)) = [''a'', ''b''] \<and>
   plainLines ''a\<newline>b'' 100 = [''a\<newline>b''] \<and>
   concat (map (\<lambda>c. split_js c line_feed) (splitMessage ''ab cd e'' 3 5)) = [''ab'', ''cd e''] \<and>
   plainLines ''ab cd e'' 5 = [''ab cd'', ''e'']"
  by (simp add: splitMessage_def split_js_def paragraphStep_def pushLine_def
      initialChunker_def backslash_n_def space_def line_feed_def plainLines_def
      plainParagraph_def)

text \<open>
  Claim C3, as far as the code goes. \<open>splitMessage\<close> is a total function of its
  arguments. A text without the marker \<^verbatim>\<open>\n\<close> (backslash, \<open>n\<close>) that is no longer
  than \<open>maxCharsPerLine\<close> comes back, for \<open>maxLines\<close> at least one, as one chunk of
  one line equal to the text; the empty text is such a text.
\<close>

theorem splitMessage_short:
  assumes "1 \<le> maxLines" and "\<not> includes_js text backslash_n" and "int (length text) \<le> m"
  shows "splitMessage text maxLines m = [text]"
  using assms
  by (simp add: splitMessage_def split_js_no_match paragraphStep_def pushLine_def initialChunker_def)

theorem splitMessage_short_witness:
  "splitMessage ''short'' 3 100 = [''short'']"
proof -
  have "(1::int) \<le> 3" and "\<not> includes_js ''short'' backslash_n"
    and "int (length ''short'') \<le> 100"
    by (simp_all add: backslash_n_def)
  from splitMessage_short [OF this] show ?thesis .
qed

text \<open>The empty text gives one chunk, the empty line, not the empty sequence.\<close>

theorem splitMessage_empty_counterexample:
  "splitMessage [] 3 100 = [[]] \<and> splitMessage [] 3 100 \<noteq> []"
  by (simp add: splitMessage_def split_js_def paragraphStep_def pushLine_def
      initialChunker_def backslash_n_def)

text \<open>
  Claim C10. The paragraphs are cut at the marker \<^verbatim>\<open>\n\<close> (backslash, \<open>n\<close>) and
  nowhere else. A text without the marker is one paragraph, whatever line feeds it holds;
  its chunks are lines joined by line feeds, and these lines put together carry every
  character of the text but the spaces, in order: every line feed of the text lies inside
  an emitted line; when the text is no longer than \<open>maxCharsPerLine\<close> it is, line feeds
  and all, the one line of the one chunk. Followed by the marker, such a text is the first
  paragraph and the rest is cut on; and two such texts around one marker, both within
  \<open>maxCharsPerLine\<close>, come out as two lines, the marker gone: in one chunk when
  \<open>maxLines\<close> is at least two, in two chunks when it is one.
\<close>

theorem line_feed_not_a_boundary:
  assumes "\<not> includes_js text backslash_n"
  shows "split_js text backslash_n = [text] \<and>
         (\<exists>G. splitMessage text maxLines m = map (join_js line_feed) G \<and>
              filter (\<lambda>c. c \<noteq> CHR '' '') (concat (concat G)) = filter (\<lambda>c. c \<noteq> CHR '' '') text) \<and>
         (1 \<le> maxLines \<and> int (length text) \<le> m \<longrightarrow> splitMessage text maxLines m = [text]) \<and>
         split_js (text @ backslash_n @ rest) backslash_n = text # split_js rest backslash_n \<and>
         (\<not> includes_js b backslash_n \<and> 1 \<le> maxLines \<and>
          int (length text) \<le> m \<and> int (length b) \<le> m \<longrightarrow>
            splitMessage (text @ backslash_n @ b) maxLines m
            = (if 2 \<le> maxLines then [text @ line_feed @ b] else [text, b]))"
proof -
  from assms have one: "split_js text backslash_n = [text]" by (rule split_js_no_match)
  then have gl: "pushedLines text m = paragraphLines m text" by (simp add: pushedLines_def)
  from splitMessage_groups [of "text" maxLines m] obtain G where
    sm: "splitMessage text maxLines m = map (join_js line_feed) G" and
    cg: "concat G = pushedLines text m"
    by blast
  from cg gl have "filter (\<lambda>c. c \<noteq> CHR '' '') (concat (concat G)) = filter (\<lambda>c. c \<noteq> CHR '' '') text"
    by (simp only: filter_paragraphLines)
  with sm have two: "\<exists>G. splitMessage text maxLines m = map (join_js line_feed) G \<and>
              filter (\<lambda>c. c \<noteq> CHR '' '') (concat (concat G)) = filter (\<lambda>c. c \<noteq> CHR '' '') text"
    by blast
  have three: "1 \<le> maxLines \<and> int (length text) \<le> m \<longrightarrow> splitMessage text maxLines m = [text]"
    using assms
    by (simp add: splitMessage_def split_js_no_match paragraphStep_def pushLine_def initialChunker_def)
  have four: "split_js (text @ backslash_n @ rest) backslash_n = text # split_js rest backslash_n"
    for rest
    using splitFrom_marker [OF assms, of "[]" rest] by (simp add: split_js_def backslash_n_def)
  have five: "splitMessage (text @ backslash_n @ b) maxLines m
            = (if 2 \<le> maxLines then [text @ line_feed @ b] else [text, b])"
    if "\<not> includes_js b backslash_n \<and> 1 \<le> maxLines \<and> int (length text) \<le> m \<and> int (length b) \<le> m"
  proof -
    from that have "split_js b backslash_n = [b]" by (simp add: split_js_no_match)
    with four [of b] have "split_js (text @ backslash_n @ b) backslash_n = [text, b]" by simp
    with that show ?thesis
      by (simp add: splitMessage_def paragraphStep_def pushLine_def initialChunker_def)
  qed
  from one two three four five show ?thesis by blast
qed

theorem line_feed_not_a_boundary_witness:
  "split_js ''a\<newline>b c'' backslash_n = [''a\<newline>b c''] \<and>
   splitMessage ''a\<newline>b c'' 3 100 = [''a\<newline>b c''] \<and>
   (\<exists>G. splitMessage ''a\<newline>b c'' 3 100 = map (join_js line_feed) G \<and>
        filter (\<lambda>c. c \<noteq> CHR '' '') (concat (concat G)) = ''a\<newline>bc'') \<and>
   splitMessage (''a\<newline>b c'' @ backslash_n @ ''d'') 1 100 = [''a\<newline>b c'', ''d''] \<and>
   splitMessage (''a\<newline>b c'' @ backslash_n @ ''d'') 3 100 = [''a\<newline>b c\<newline>d'']"
proof -
  have "\<not> includes_js ''a\<newline>b c'' backslash_n" by (simp add: backslash_n_def)
  note t = line_feed_not_a_boundary [OF this, of _ 100 _ "''d''"]
  have d: "\<not> includes_js ''d'' backslash_n" by (simp add: backslash_n_def)
  have f: "filter (\<lambda>c. c \<noteq> CHR '' '') ''a\<newline>b c'' = ''a\<newline>bc''" by simp
  from t [of 3] have one: "split_js ''a\<newline>b c'' backslash_n = [''a\<newline>b c'']" by blast
  from t [of 3] have two: "\<exists>G. splitMessage ''a\<newline>b c'' 3 100 = map (join_js line_feed) G \<and>
        filter (\<lambda>c. c \<noteq> CHR '' '') (concat (concat G))
        = filter (\<lambda>c. c \<noteq> CHR '' '') ''a\<newline>b c''" by blast
  from t [of 3] have three: "splitMessage ''a\<newline>b c'' 3 100 = [''a\<newline>b c'']" by simp
  from t [of 1] d
  have four: "splitMessage (''a\<newline>b c'' @ backslash_n @ ''d'') 1 100 = [''a\<newline>b c'', ''d'']"
    by simp
  from t [of 3] d
  have five: "splitMessage (''a\<newline>b c'' @ backslash_n @ ''d'') 3 100 = [''a\<newline>b c\<newline>d'']"
    by (simp add: line_feed_def)
  from two have "\<exists>G. splitMessage ''a\<newline>b c'' 3 100 = map (join_js line_feed) G \<and>
        filter (\<lambda>c. c \<noteq> CHR '' '') (concat (concat G)) = ''a\<newline>bc''"
    by (simp only: f)
  with one three four five show ?thesis by blast
qed

text \<open>
  Two effects of \<open>currentLength\<close>, which starts a paragraph at zero and charges every
  word that joins a line a separating space, the first one too, but is the bare length of
  the word when a line starts with it behind another. The first line of a wrapped
  paragraph closes one character early: \<open>ab cd\<close> has five characters and is not made.
  And a first word that does not fit closes the line before any word is on it, which
  leaves an empty line. Section 4.2, read plainly, has neither.
\<close>

lemma first_line_closes_early:
  "splitMessage ''ab cd e'' 3 5 = [''ab\<newline>cd e''] \<and>
   pushedLines ''ab cd e'' 5 = [''ab'', ''cd e''] \<and>
   plainLines ''ab cd e'' 5 = [''ab cd'', ''e'']"
  by (simp add: splitMessage_def split_js_def paragraphStep_def pushLine_def
      initialChunker_def backslash_n_def space_def line_feed_def pushedLines_def
      paragraphLines_def plainLines_def plainParagraph_def)

lemma long_first_word_leaves_empty_line:
  "splitMessage ''abcdefgh'' 3 5 = [''\<newline>abcdefgh''] \<and>
   pushedLines ''abcdefgh'' 5 = [[], ''abcdefgh''] \<and>
   plainLines ''abcdefgh'' 5 = [''abcdefgh'']"
  by (simp add: splitMessage_def split_js_def paragraphStep_def pushLine_def
      initialChunker_def backslash_n_def space_def line_feed_def pushedLines_def
      paragraphLines_def plainLines_def plainParagraph_def)

section \<open>Properties of the store, the delivery, the handler and the reply generator\<close>

subsection \<open>The conversation store\<close>

lemma every_js_True: "every_js p xs = Some True \<longleftrightarrow> (\<forall>x\<in>set xs. p x = Some True)"
  by (induction xs) (auto split: option.splits bool.splits)

lemma validItem_True: "validItem item = Some True \<longleftrightarrow> carriesRoleAndParts item"
  by (cases item) (auto simp: validItem_def split: bool.splits)

lemma validItem2_True: "validItem2 item = Some True \<Longrightarrow> carriesRoleAndParts item"
proof (cases item)
  case (JObj kvs)
  assume v: "validItem2 item = Some True"
  have "k \<in> set (map fst kvs)" if "propertyTruthy k (JObj kvs) = Some True" for k
  proof -
    from that obtain v where "map_of kvs k = Some v" by (auto split: option.splits)
    then have "(k, v) \<in> set kvs" by (rule map_of_SomeD)
    then show ?thesis by force
  qed
  with v JObj show ?thesis
    by (auto simp: validItem2_def split: option.splits bool.splits)
qed (auto simp: validItem2_def)

lemma valid_record: "every_js validItem items = Some True \<longleftrightarrow> conversationRecord (JArr items)"
  by (simp add: every_js_True validItem_True list_all_iff)

lemma valid_record2: "every_js validItem2 items = Some True \<Longrightarrow> conversationRecord (JArr items)"
  by (auto simp: every_js_True list_all_iff dest: validItem2_True)

lemma loadConversationHistory_valid:
  "every_js validItem (loadConversationHistory userId w) = Some True"
  by (auto simp: loadConversationHistory_def split: stored.splits json.splits option.splits bool.splits)

lemma loadConversationHistory2_valid:
  "every_js validItem2 (loadConversationHistory2 userId w) = Some True"
  by (auto simp: loadConversationHistory2_def split: stored.splits json.splits option.splits bool.splits)

lemma validItem_turn: "validItem (turn role t) = Some True"
  by (simp add: validItem_def turn_def)

lemma validItem2_turn2: "role \<noteq> [] \<Longrightarrow> validItem2 (turn2 role t) = Some True"
  by (simp add: validItem2_def turn2_def)

lemma load_after_save:
  assumes "writes w (conversationPath userId) = Written" and "every_js validItem history = Some True"
  shows "loadConversationHistory userId (saveConversationHistory userId history w) = history"
  using assms by (simp add: loadConversationHistory_def saveConversationHistory_def)

lemma load2_after_save:
  assumes "writes w (conversationPath userId) = Written" and "every_js validItem2 history = Some True"
  shows "loadConversationHistory2 userId (saveConversationHistory userId history w) = history"
  using assms by (simp add: loadConversationHistory2_def saveConversationHistory_def)

text \<open>
  Claim C8. Loading a key without a file gives the empty conversation; so does loading a
  file that does not parse, and a file that parses to anything but an array of objects
  each carrying a role and parts. This holds of both copies, and the function returns in
  every case: each error the load can meet is one of its branches.
\<close>

theorem load_missing_or_corrupted:
  "(files w (conversationPath userId) = NoFile \<longrightarrow>
      loadConversationHistory userId w = [] \<and> loadConversationHistory2 userId w = []) \<and>
   (files w (conversationPath userId) = BadJson \<longrightarrow>
      loadConversationHistory userId w = [] \<and> loadConversationHistory2 userId w = []) \<and>
   (\<forall>v. files w (conversationPath userId) = Json v \<and> \<not> conversationRecord v \<longrightarrow>
      loadConversationHistory userId w = [] \<and> loadConversationHistory2 userId w = [])"
proof (intro conjI impI allI)
  fix v assume a: "files w (conversationPath userId) = Json v \<and> \<not> conversationRecord v"
  show "loadConversationHistory userId w = []"
  proof (cases v)
    case (JArr items)
    with a have "every_js validItem items \<noteq> Some True" by (simp add: valid_record)
    with a JArr show ?thesis
      by (auto simp: loadConversationHistory_def split: option.splits bool.splits)
  qed (use a in \<open>simp_all add: loadConversationHistory_def\<close>)
  show "loadConversationHistory2 userId w = []"
  proof (cases v)
    case (JArr items)
    with a have "every_js validItem2 items \<noteq> Some True" using valid_record2 by blast
    with a JArr show ?thesis
      by (auto simp: loadConversationHistory2_def split: option.splits bool.splits)
  qed (use a in \<open>simp_all add: loadConversationHistory2_def\<close>)
qed (simp_all add: loadConversationHistory_def loadConversationHistory2_def)

theorem load_missing_or_corrupted_witness:
  "loadConversationHistory ''k'' emptyWorld = [] \<and>
   loadConversationHistory2 ''k'' emptyWorld = [] \<and>
   loadConversationHistory ''k'' (emptyWorld\<lparr>files := (\<lambda>p. BadJson)\<rparr>) = [] \<and>
   loadConversationHistory2 ''k'' (emptyWorld\<lparr>files := (\<lambda>p. BadJson)\<rparr>) = [] \<and>
   loadConversationHistory ''k''
     (emptyWorld\<lparr>files := (\<lambda>p. Json (JArr [JObj [(''role'', JStr ''user'')]]))\<rparr>) = [] \<and>
   loadConversationHistory2 ''k''
     (emptyWorld\<lparr>files := (\<lambda>p. Json (JArr [JObj [(''role'', JStr ''user'')]]))\<rparr>) = []"
  using load_missing_or_corrupted [of emptyWorld "''k''"]
    load_missing_or_corrupted [of "emptyWorld\<lparr>files := (\<lambda>p. BadJson)\<rparr>" "''k''"]
    load_missing_or_corrupted
      [of "emptyWorld\<lparr>files := (\<lambda>p. Json (JArr [JObj [(''role'', JStr ''user'')]]))\<rparr>" "''k''"]
  by (simp add: emptyWorld_def)

text \<open>
  Claim C9, as far as the code goes. When the write to the file of the key succeeds,
  saving a history that passes the validity check of the load, extended by the two turns
  the handler pushes, and loading the key again gives exactly the saved sequence, in
  order. This holds of both copies, each with its own check and its own shape of turn.
\<close>

theorem save_then_load:
  assumes "writes w (conversationPath userId) = Written"
  shows "(every_js validItem history = Some True \<longrightarrow>
            loadConversationHistory userId
              (saveConversationHistory userId (history @ [turn ''user'' t, turn ''model'' r]) w)
            = history @ [turn ''user'' t, turn ''model'' r]) \<and>
         (every_js validItem2 history = Some True \<longrightarrow>
            loadConversationHistory2 userId
              (saveConversationHistory userId (history @ [turn2 ''user'' t, turn2 ''model'' r]) w)
            = history @ [turn2 ''user'' t, turn2 ''model'' r])"
proof (intro conjI impI)
  assume "every_js validItem history = Some True"
  then have "every_js validItem (history @ [turn ''user'' t, turn ''model'' r]) = Some True"
    by (simp add: every_js_True validItem_turn)
  from load_after_save [OF assms this] show "loadConversationHistory userId
              (saveConversationHistory userId (history @ [turn ''user'' t, turn ''model'' r]) w)
            = history @ [turn ''user'' t, turn ''model'' r]" .
next
  assume "every_js validItem2 history = Some True"
  then have "every_js validItem2 (history @ [turn2 ''user'' t, turn2 ''model'' r]) = Some True"
    by (simp add: every_js_True validItem2_turn2)
  from load2_after_save [OF assms this] show "loadConversationHistory2 userId
              (saveConversationHistory userId (history @ [turn2 ''user'' t, turn2 ''model'' r]) w)
            = history @ [turn2 ''user'' t, turn2 ''model'' r]" .
qed


theorem save_then_load_witness:
  "loadConversationHistory ''k''
     (saveConversationHistory ''k'' [turn ''user'' ''a'', turn ''model'' ''b''] emptyWorld)
   = [JObj [(''role'', JStr ''user''), (''parts'', JArr [JObj [(''text'', JStr ''a'')]])],
      JObj [(''role'', JStr ''model''), (''parts'', JArr [JObj [(''text'', JStr ''b'')]])]] \<and>
   loadConversationHistory2 ''k''
     (saveConversationHistory ''k'' [turn2 ''user'' ''a'', turn2 ''model'' ''b''] emptyWorld)
   = [JObj [(''role'', JStr ''user''), (''parts'', JArr [JStr ''a''])],
      JObj [(''role'', JStr ''model''), (''parts'', JArr [JStr ''b''])]]"
proof -
  have "writes emptyWorld (conversationPath ''k'') = Written" by (simp add: emptyWorld_def)
  note t = save_then_load [OF this, of "[]" "''a''" "''b''"]
  from t have a: "loadConversationHistory ''k''
     (saveConversationHistory ''k'' [turn ''user'' ''a'', turn ''model'' ''b''] emptyWorld)
   = [turn ''user'' ''a'', turn ''model'' ''b'']" by simp
  from t have b: "loadConversationHistory2 ''k''
     (saveConversationHistory ''k'' [turn2 ''user'' ''a'', turn2 ''model'' ''b''] emptyWorld)
   = [turn2 ''user'' ''a'', turn2 ''model'' ''b'']" by simp
  have c: "[turn ''user'' ''a'', turn ''model'' ''b'']
   = [JObj [(''role'', JStr ''user''), (''parts'', JArr [JObj [(''text'', JStr ''a'')]])],
      JObj [(''role'', JStr ''model''), (''parts'', JArr [JObj [(''text'', JStr ''b'')]])]]"
    by (simp add: turn_def)
  have d: "[turn2 ''user'' ''a'', turn2 ''model'' ''b'']
   = [JObj [(''role'', JStr ''user''), (''parts'', JArr [JStr ''a''])],
      JObj [(''role'', JStr ''model''), (''parts'', JArr [JStr ''b''])]]"
    by (simp add: turn2_def)
  from a c have a': "loadConversationHistory ''k''
     (saveConversationHistory ''k'' [turn ''user'' ''a'', turn ''model'' ''b''] emptyWorld)
   = [JObj [(''role'', JStr ''user''), (''parts'', JArr [JObj [(''text'', JStr ''a'')]])],
      JObj [(''role'', JStr ''model''), (''parts'', JArr [JObj [(''text'', JStr ''b'')]])]]"
    by (rule trans)
  from b d have b': "loadConversationHistory2 ''k''
     (saveConversationHistory ''k'' [turn2 ''user'' ''a'', turn2 ''model'' ''b''] emptyWorld)
   = [JObj [(''role'', JStr ''user''), (''parts'', JArr [JStr ''a''])],
      JObj [(''role'', JStr ''model''), (''parts'', JArr [JStr ''b''])]]"
    by (rule trans)
  from a' b' show ?thesis by blast
qed

text \<open>
  Where the write fails at the open, the error is swallowed and nothing is stored: with
  no file there before, the load that follows gives the empty conversation, not the
  saved turns.
\<close>

theorem save_then_load_counterexample:
  "loadConversationHistory ''k''
     (saveConversationHistory ''k'' [turn ''user'' ''a'', turn ''model'' ''b''] readOnlyWorld)
   = [] \<and>
   loadConversationHistory ''k''
     (saveConversationHistory ''k'' [turn ''user'' ''a'', turn ''model'' ''b''] readOnlyWorld)
   \<noteq> [turn ''user'' ''a'', turn ''model'' ''b'']"
  by (simp add: loadConversationHistory_def saveConversationHistory_def readOnlyWorld_def)

text \<open>
  A write that fails behind the open leaves a file that does not parse, and the load that
  follows gives the empty conversation, whatever was stored before.
\<close>

lemma load_after_broken_write:
  assumes "writes w (conversationPath userId) = FailsAfterOpen"
  shows "loadConversationHistory userId (saveConversationHistory userId history w) = []"
    and "loadConversationHistory2 userId (saveConversationHistory userId history w) = []"
  using assms
  by (simp_all add: loadConversationHistory_def loadConversationHistory2_def
      saveConversationHistory_def)

subsection \<open>Delivery\<close>

lemma sendWhatsappMessage_trace:
  "trace (snd (sendWhatsappMessage e r c ty m w))
   = trace w @ [SendCall r c (fst (sendWhatsappMessage e r c ty m w))]"
  by (simp add: sendWhatsappMessage_def Let_def)

lemma sendWhatsappMessage_store:
  "files (snd (sendWhatsappMessage e r c ty m w)) = files w \<and>
   writes (snd (sendWhatsappMessage e r c ty m w)) = writes w"
  by (simp add: sendWhatsappMessage_def Let_def)

lemma sendLoop_deliver:
  "sendLoop e r cs i w = deliver e r (drop i cs) w"
proof (induction e r cs i w rule: sendLoop.induct)
  case (1 e r cs i w)
  show ?case
  proof (cases "i < length cs")
    case False
    then show ?thesis by (simp add: sendLoop.simps [of e r cs i w])
  next
    case True
    then have d: "drop i cs = cs ! i # drop (Suc i) cs" by (simp add: Cons_nth_drop_Suc)
    from True have more: "int i < int (length cs) - 1 \<longleftrightarrow> drop (Suc i) cs \<noteq> []" by auto
    let ?r = "sendWhatsappMessage e r (cs ! i) ''text'' None w"
    show ?thesis
    proof (cases "fst ?r")
      case False
      with True d show ?thesis by (simp add: sendLoop.simps [of e r cs i w] Let_def)
    next
      case ok: True
      have "sendLoop e r cs i w
            = sendLoop e r cs (i + 1) (if int i < int (length cs) - 1 then delay (snd ?r) else snd ?r)"
        using True ok by (simp add: sendLoop.simps [of e r cs i w] Let_def)
      also have "\<dots> = deliver e r (drop (i + 1) cs)
                         (if int i < int (length cs) - 1 then delay (snd ?r) else snd ?r)"
        using "1.IH" [OF True refl] ok by simp
      also have "\<dots> = deliver e r (drop i cs) w"
        using ok more by (simp add: d Let_def)
      finally show ?thesis .
    qed
  qed
qed

lemma deliver_trace:
  "\<exists>new. trace (deliver e r cs w) = trace w @ new \<and> inOrderStopping r cs new"
proof (induction cs arbitrary: w)
  case Nil
  then show ?case by simp
next
  case (Cons c cs)
  let ?r = "sendWhatsappMessage e r c ''text'' None w"
  have tr: "trace (snd ?r) = trace w @ [SendCall r c (fst ?r)]"
    by (rule sendWhatsappMessage_trace)
  show ?case
  proof (cases "fst ?r")
    case False
    with tr have "trace (deliver e r (c # cs) w) = trace w @ [SendCall r c False]"
      by (simp add: Let_def)
    moreover have "inOrderStopping r (c # cs) [SendCall r c False]" by simp
    ultimately show ?thesis by blast
  next
    case ok: True
    show ?thesis
    proof (cases "cs = []")
      case True
      with ok tr have "trace (deliver e r (c # cs) w) = trace w @ [SendCall r c True]"
        by (simp add: Let_def)
      moreover from True have "inOrderStopping r (c # cs) [SendCall r c True]" by simp
      ultimately show ?thesis by blast
    next
      case False
      from Cons.IH [of "delay (snd ?r)"] obtain new where
        n: "trace (deliver e r cs (delay (snd ?r))) = trace (delay (snd ?r)) @ new" and
        o: "inOrderStopping r cs new"
        by blast
      from ok False n tr
      have "trace (deliver e r (c # cs) w) = trace w @ (SendCall r c True # Delay # new)"
        by (simp add: Let_def delay_def)
      moreover from False o have "inOrderStopping r (c # cs) (SendCall r c True # Delay # new)"
        by simp
      ultimately show ?thesis by blast
    qed
  qed
qed

lemma deliver_store:
  "files (deliver e r cs w) = files w \<and> writes (deliver e r cs w) = writes w"
proof (induction cs arbitrary: w)
  case Nil
  then show ?case by simp
next
  case (Cons c cs)
  then show ?case
    using sendWhatsappMessage_store [of e r c "''text''" None w]
    by (simp add: Let_def delay_def)
qed

text \<open>
  Claim C6. Whatever the recipient, the chunks and the delivery capability, the loop adds
  to the trace a delivery in order that stops at the first failure: the chunks are sent
  one at a time in their order, a send that reports failure is the last thing that
  happens, and a wait follows a successful send only when another chunk is left. The loop
  is a total function and \<open>sendWhatsappMessage\<close> turns every error into \<open>False\<close>,
  so nothing is raised.
\<close>

theorem sendLoop_in_order:
  "\<exists>new. trace (sendLoop e recipient messageChunks 0 w) = trace w @ new \<and>
         inOrderStopping recipient messageChunks new"
  using deliver_trace [of e recipient messageChunks w] by (simp add: sendLoop_deliver)

lemma sendLoop_store:
  "files (sendLoop e r cs 0 w) = files w \<and> writes (sendLoop e r cs 0 w) = writes w"
  using deliver_store [of e r cs w] by (simp add: sendLoop_deliver)


theorem sendLoop_in_order_witness:
  "trace (sendLoop secondPostFails ''r'' [''c1'', ''c2'', ''c3''] 0 emptyWorld)
   = [SendCall ''r'' ''c1'' True, Delay, SendCall ''r'' ''c2'' False] \<and>
   inOrderStopping ''r'' [''c1'', ''c2'', ''c3'']
     [SendCall ''r'' ''c1'' True, Delay, SendCall ''r'' ''c2'' False]"
  using sendLoop_in_order [of secondPostFails "''r''" "[''c1'', ''c2'', ''c3'']" emptyWorld]
  by (simp add: sendLoop_deliver sendWhatsappMessage_def buildPayload_def delay_def Let_def
      secondPostFails_def emptyWorld_def)

subsection \<open>The handler\<close>

lemma validItem_append_turns:
  "every_js validItem h = Some True \<Longrightarrow>
     every_js validItem (h @ [turn a x, turn b y]) = Some True"
  by (simp add: every_js_True validItem_turn)

lemma validItem2_append_turns:
  "every_js validItem2 h = Some True \<Longrightarrow>
     every_js validItem2 (h @ [turn2 ''user'' x, turn2 ''model'' y]) = Some True"
  by (simp add: every_js_True validItem2_turn2)

text \<open>
  What the handler of the first copy saves for a text message with a reply: the loaded
  array as the completion call has left it, followed by the two turns, whatever the
  delivery loop met; the loop does not touch the files. The same holds of the second
  copy.
\<close>

lemma turns_pushed_and_saved:
  assumes "event body = Some ''messages.upsert''" and "messages body = Some mi"
    and "\<not> selfSent mi" and "\<not> stubbed mi"
    and "senderOf mi = Some sender" and "sender \<noteq> []" and "t \<noteq> []"
    and "readMessage mi = (Some t, ''text'')"
    and "getGeminiResponse e t (loadConversationHistory (safeSenderId sender) w) = reply"
    and "reply \<noteq> []"
  shows "webhook e body w =
           (acknowledged,
            saveConversationHistory (safeSenderId sender)
              (historyAfterResponse e t (loadConversationHistory (safeSenderId sender) w)
                 @ [turn ''user'' t, turn ''model'' reply])
              (sendLoop e sender (splitMessage reply 3 100) 0 w))"
  using assms by (simp add: webhook_def processText_def Let_def)

lemma turns_pushed_and_saved2:
  assumes "event body = Some ''messages.upsert''" and "messages body = Some mi"
    and "\<not> selfSent mi" and "\<not> stubbed mi"
    and "senderOf mi = Some sender" and "sender \<noteq> []" and "t \<noteq> []"
    and "readMessage2 mi = (Some t, ''text'')"
    and "getGeminiResponse2 e t (loadConversationHistory2 (safeSenderId sender) w) = reply"
    and "reply \<noteq> []"
  shows "webhook2 e body w =
           (acknowledged,
            saveConversationHistory (safeSenderId sender)
              (historyAfterResponse e t (loadConversationHistory2 (safeSenderId sender) w)
                 @ [turn2 ''user'' t, turn2 ''model'' reply])
              (sendLoop e sender (splitMessage reply 3 100) 0 w))"
  using assms by (simp add: webhook2_def processText2_def Let_def)

text \<open>
  Where the completion call leaves the array as it was, and the file can be written, the
  load after the handler gives the old history followed by exactly the two turns.
\<close>

lemma two_turns_when_array_untouched:
  assumes "event body = Some ''messages.upsert''" and "messages body = Some mi"
    and "\<not> selfSent mi" and "\<not> stubbed mi"
    and "senderOf mi = Some sender" and "sender \<noteq> []" and "t \<noteq> []"
    and "readMessage mi = (Some t, ''text'')"
    and "getGeminiResponse e t (loadConversationHistory (safeSenderId sender) w) = reply"
    and "reply \<noteq> []"
    and "historyAfterResponse e t (loadConversationHistory (safeSenderId sender) w)
         = loadConversationHistory (safeSenderId sender) w"
    and "writes w (conversationPath (safeSenderId sender)) = Written"
  shows "loadConversationHistory (safeSenderId sender) (snd (webhook e body w))
         = loadConversationHistory (safeSenderId sender) w @ [turn ''user'' t, turn ''model'' reply]"
proof -
  let ?k = "safeSenderId sender"
  let ?w1 = "sendLoop e sender (splitMessage reply 3 100) 0 w"
  from sendLoop_store [of e sender "splitMessage reply 3 100" w] assms(12)
  have "writes ?w1 (conversationPath ?k) = Written" by simp
  from load_after_save [OF this validItem_append_turns [OF loadConversationHistory_valid]]
    turns_pushed_and_saved [OF assms(1-10)] assms(11)
  show ?thesis by simp
qed

lemma safeSenderId_example: "safeSenderId ''6@s'' = ''6_s''"
  by (simp add: safeSenderId_def safeChar_def)

lemma conversationPath_example: "conversationPath ''6_s'' = ''conversations/6_s.json''"
  by (simp add: conversationPath_def CONVERSATIONS_DIR_def)

lemma splitMessage_hi: "splitMessage ''hi'' 3 100 = [''hi'']"
  by (simp add: splitMessage_def split_js_def paragraphStep_def pushLine_def
      initialChunker_def backslash_n_def)

lemma textFrom_read:
  "\<not> selfSent (textFrom ''6@s'' ''hello'')" "\<not> stubbed (textFrom ''6@s'' ''hello'')"
  "senderOf (textFrom ''6@s'' ''hello'') = Some ''6@s''"
  "readMessage (textFrom ''6@s'' ''hello'') = (Some ''hello'', ''text'')"
  "readMessage2 (textFrom ''6@s'' ''hello'') = (Some ''hello'', ''text'')"
  by (simp_all add: textFrom_def selfSent_def stubbed_def senderOf_def readMessage_def
      readMessage2_def)

lemma knownSender_loads:
  "loadConversationHistory ''6_s'' knownSender = storedTurns"
  "loadConversationHistory2 ''6_s'' knownSender = storedTurns"
  by (simp_all add: loadConversationHistory_def loadConversationHistory2_def knownSender_def
      conversationPath_example storedTurns_def validItem_def validItem2_def)

lemma chatKeepsArray_replies:
  "getGeminiResponse chatKeepsArray ''hello'' storedTurns = ''hi''"
  "getGeminiResponse2 chatKeepsArray ''hello'' storedTurns = emptyReply"
  by (simp_all add: getGeminiResponse_def getGeminiResponse2_def chatKeepsArray_def nested_def
      pickText_def pickText2_def nestedParts_def storedTurns_def trim_def isWhiteSpace_def)

text \<open>
  Claim C5 at a sender with a stored history of two turns, whose chat keeps the array it
  is handed and pushes the request and the response onto it. The handler then pushes its
  two turns behind these, and the saved history has grown by four turns, not by two, in
  both copies. The second copy reads no text from the nested shape and answers with its
  fixed reply.
\<close>

theorem four_turns_saved:
  "loadConversationHistory ''6_s''
     (snd (webhook chatKeepsArray
             \<lparr>event = Some ''messages.upsert'', messages = Some (textFrom ''6@s'' ''hello'')\<rparr>
             knownSender))
   = [JObj [(''role'', JStr ''user''), (''parts'', JArr [JObj [(''text'', JStr ''one'')]])],
      JObj [(''role'', JStr ''model''), (''parts'', JArr [JObj [(''text'', JStr ''two'')]])],
      JObj [(''role'', JStr ''user''), (''parts'', JArr [JObj [(''text'', JStr ''hello'')]])],
      JObj [(''parts'', JArr [JObj [(''text'', JStr ''hi'')]]), (''role'', JStr ''model'')],
      JObj [(''role'', JStr ''user''), (''parts'', JArr [JObj [(''text'', JStr ''hello'')]])],
      JObj [(''role'', JStr ''model''), (''parts'', JArr [JObj [(''text'', JStr ''hi'')]])]] \<and>
   loadConversationHistory2 ''6_s''
     (snd (webhook2 chatKeepsArray
             \<lparr>event = Some ''messages.upsert'', messages = Some (textFrom ''6@s'' ''hello'')\<rparr>
             knownSender))
   = [JObj [(''role'', JStr ''user''), (''parts'', JArr [JObj [(''text'', JStr ''one'')]])],
      JObj [(''role'', JStr ''model''), (''parts'', JArr [JObj [(''text'', JStr ''two'')]])],
      JObj [(''role'', JStr ''user''), (''parts'', JArr [JObj [(''text'', JStr ''hello'')]])],
      JObj [(''parts'', JArr [JObj [(''text'', JStr ''hi'')]]), (''role'', JStr ''model'')],
      JObj [(''role'', JStr ''user''), (''parts'', JArr [JStr ''hello''])],
      JObj [(''role'', JStr ''model''), (''parts'', JArr [JStr emptyReply])]]"
proof -
  let ?body = "\<lparr>event = Some ''messages.upsert'', messages = Some (textFrom ''6@s'' ''hello'')\<rparr>"
  have ev: "event ?body = Some ''messages.upsert''"
    "messages ?body = Some (textFrom ''6@s'' ''hello'')" by simp_all
  have ne: "''6@s'' \<noteq> []" "''hello'' \<noteq> []" "''hi'' \<noteq> []" "emptyReply \<noteq> []"
    by (simp_all add: emptyReply_def)
  have g: "getGeminiResponse chatKeepsArray ''hello''
             (loadConversationHistory (safeSenderId ''6@s'') knownSender) = ''hi''"
    "getGeminiResponse2 chatKeepsArray ''hello''
             (loadConversationHistory2 (safeSenderId ''6@s'') knownSender) = emptyReply"
    by (simp_all only: safeSenderId_example knownSender_loads chatKeepsArray_replies)
  have hst: "historyAfterResponse chatKeepsArray ''hello'' storedTurns
        = storedTurns @
          [JObj [(''role'', JStr ''user''), (''parts'', JArr [JObj [(''text'', JStr ''hello'')]])],
           JObj [(''parts'', JArr [JObj [(''text'', JStr ''hi'')]]), (''role'', JStr ''model'')]]"
    by (simp add: historyAfterResponse_def chatKeepsArray_def storedTurns_def)
  have wr: "writes (sendLoop chatKeepsArray ''6@s'' cs 0 knownSender) (conversationPath ''6_s'')
            = Written" for cs
    using sendLoop_store [of chatKeepsArray "''6@s''" cs knownSender]
    by (simp add: knownSender_def)
  have one: "snd (webhook chatKeepsArray ?body knownSender)
      = saveConversationHistory ''6_s''
          (historyAfterResponse chatKeepsArray ''hello'' storedTurns
             @ [turn ''user'' ''hello'', turn ''model'' ''hi''])
          (sendLoop chatKeepsArray ''6@s'' (splitMessage ''hi'' 3 100) 0 knownSender)"
    using turns_pushed_and_saved [OF ev textFrom_read(1,2,3) ne(1,2) textFrom_read(4) g(1) ne(3)]
    by (simp only: safeSenderId_example knownSender_loads snd_conv)
  have two: "snd (webhook2 chatKeepsArray ?body knownSender)
      = saveConversationHistory ''6_s''
          (historyAfterResponse chatKeepsArray ''hello'' storedTurns
             @ [turn2 ''user'' ''hello'', turn2 ''model'' emptyReply])
          (sendLoop chatKeepsArray ''6@s'' (splitMessage emptyReply 3 100) 0 knownSender)"
    using turns_pushed_and_saved2 [OF ev textFrom_read(1,2,3) ne(1,2) textFrom_read(5) g(2) ne(4)]
    by (simp only: safeSenderId_example knownSender_loads snd_conv)
  have v1: "every_js validItem
      (historyAfterResponse chatKeepsArray ''hello'' storedTurns
         @ [turn ''user'' ''hello'', turn ''model'' ''hi'']) = Some True"
    by (simp only: hst) (simp add: storedTurns_def turn_def validItem_def)
  have v2: "every_js validItem2
      (historyAfterResponse chatKeepsArray ''hello'' storedTurns
         @ [turn2 ''user'' ''hello'', turn2 ''model'' emptyReply]) = Some True"
    by (simp only: hst) (simp add: storedTurns_def turn2_def validItem2_def)
  from load_after_save [OF wr v1] one
  have a: "loadConversationHistory ''6_s'' (snd (webhook chatKeepsArray ?body knownSender))
      = historyAfterResponse chatKeepsArray ''hello'' storedTurns
          @ [turn ''user'' ''hello'', turn ''model'' ''hi'']" by simp
  from load2_after_save [OF wr v2] two
  have b: "loadConversationHistory2 ''6_s'' (snd (webhook2 chatKeepsArray ?body knownSender))
      = historyAfterResponse chatKeepsArray ''hello'' storedTurns
          @ [turn2 ''user'' ''hello'', turn2 ''model'' emptyReply]" by simp
  from a b show ?thesis
    by (simp only: hst) (simp add: storedTurns_def turn_def turn2_def)
qed

text \<open>
  A first message, with nothing stored, is not handed to the chat, and two turns are
  saved; so are two turns where the chat leaves the array alone, though every post is
  rejected.
\<close>

lemma first_message_saves_two_turns:
  "loadConversationHistory ''6_s''
     (snd (webhook chatKeepsArray
             \<lparr>event = Some ''messages.upsert'', messages = Some (textFrom ''6@s'' ''hello'')\<rparr>
             emptyWorld))
   = [JObj [(''role'', JStr ''user''), (''parts'', JArr [JObj [(''text'', JStr ''hello'')]])],
      JObj [(''role'', JStr ''model''), (''parts'', JArr [JObj [(''text'', JStr ''hi'')]])]]"
proof -
  let ?body = "\<lparr>event = Some ''messages.upsert'', messages = Some (textFrom ''6@s'' ''hello'')\<rparr>"
  have ev: "event ?body = Some ''messages.upsert''"
    "messages ?body = Some (textFrom ''6@s'' ''hello'')" by simp_all
  have ne: "''6@s'' \<noteq> []" "''hello'' \<noteq> []" "''hi'' \<noteq> []" by simp_all
  have l: "loadConversationHistory (safeSenderId ''6@s'') emptyWorld = []"
    by (simp add: loadConversationHistory_def emptyWorld_def)
  have g: "getGeminiResponse chatKeepsArray ''hello''
             (loadConversationHistory (safeSenderId ''6@s'') emptyWorld) = ''hi''"
    by (simp add: l getGeminiResponse_def chatKeepsArray_def nested_def pickText_def
        nestedParts_def trim_def isWhiteSpace_def)
  have u: "historyAfterResponse chatKeepsArray ''hello''
             (loadConversationHistory (safeSenderId ''6@s'') emptyWorld)
           = loadConversationHistory (safeSenderId ''6@s'') emptyWorld"
    by (simp add: l historyAfterResponse_def)
  have wr: "writes emptyWorld (conversationPath (safeSenderId ''6@s'')) = Written"
    by (simp add: emptyWorld_def)
  have l2: "loadConversationHistory ''6_s'' emptyWorld = []"
    by (simp add: loadConversationHistory_def emptyWorld_def)
  from two_turns_when_array_untouched
    [OF ev textFrom_read(1,2,3) ne(1,2) textFrom_read(4) g ne(3) u wr]
  show ?thesis by (simp add: l2 safeSenderId_example turn_def)
qed

lemma two_turns_saved_though_every_post_fails:
  "loadConversationHistory ''6_s''
     (snd (webhook everyPostFails
             \<lparr>event = Some ''messages.upsert'', messages = Some (textFrom ''6@s'' ''hello'')\<rparr>
             knownSender))
   = storedTurns @
     [JObj [(''role'', JStr ''user''), (''parts'', JArr [JObj [(''text'', JStr ''hello'')]])],
      JObj [(''role'', JStr ''model''), (''parts'', JArr [JObj [(''text'', JStr ''hi'')]])]] \<and>
   trace
     (snd (webhook everyPostFails
             \<lparr>event = Some ''messages.upsert'', messages = Some (textFrom ''6@s'' ''hello'')\<rparr>
             knownSender))
   = [SendCall ''6@s'' ''hi'' False]"
proof -
  let ?body = "\<lparr>event = Some ''messages.upsert'', messages = Some (textFrom ''6@s'' ''hello'')\<rparr>"
  have ev: "event ?body = Some ''messages.upsert''"
    "messages ?body = Some (textFrom ''6@s'' ''hello'')" by simp_all
  have ne: "''6@s'' \<noteq> []" "''hello'' \<noteq> []" "''hi'' \<noteq> []" by simp_all
  have g: "getGeminiResponse everyPostFails ''hello''
             (loadConversationHistory (safeSenderId ''6@s'') knownSender) = ''hi''"
    by (simp add: getGeminiResponse_def everyPostFails_def answering_def pickText_def
        nestedParts_def trim_def isWhiteSpace_def)
  have u: "historyAfterResponse everyPostFails ''hello''
             (loadConversationHistory (safeSenderId ''6@s'') knownSender)
           = loadConversationHistory (safeSenderId ''6@s'') knownSender"
    by (simp add: historyAfterResponse_def everyPostFails_def)
  have wr: "writes knownSender (conversationPath (safeSenderId ''6@s'')) = Written"
    by (simp add: knownSender_def)
  have d: "trace (sendLoop everyPostFails ''6@s'' [''hi''] 0 knownSender)
           = [SendCall ''6@s'' ''hi'' False]"
    by (simp add: sendLoop_deliver sendWhatsappMessage_def buildPayload_def Let_def
        everyPostFails_def knownSender_def)
  from two_turns_when_array_untouched
    [OF ev textFrom_read(1,2,3) ne(1,2) textFrom_read(4) g ne(3) u wr]
  have a: "loadConversationHistory ''6_s'' (snd (webhook everyPostFails ?body knownSender))
   = storedTurns @
     [JObj [(''role'', JStr ''user''), (''parts'', JArr [JObj [(''text'', JStr ''hello'')]])],
      JObj [(''role'', JStr ''model''), (''parts'', JArr [JObj [(''text'', JStr ''hi'')]])]]"
    by (simp add: safeSenderId_example knownSender_loads turn_def)
  from turns_pushed_and_saved [OF ev textFrom_read(1,2,3) ne(1,2) textFrom_read(4) g ne(3)] d
  have b: "trace (snd (webhook everyPostFails ?body knownSender))
           = [SendCall ''6@s'' ''hi'' False]"
    by (simp add: splitMessage_hi saveConversationHistory_def split: writeOutcome.splits)
  from a b show ?thesis by blast
qed

subsection \<open>Status of the answer\<close>

lemma webhook_status:
  "statusCode (fst (webhook e body w)) =
     (if event body = Some ''messages.upsert'' \<and>
         (\<exists>mi. messages body = Some mi \<and> \<not> selfSent mi \<and> \<not> stubbed mi \<and>
               \<not> truthyString (senderOf mi))
      then 400 else 200)"
  by (auto simp: webhook_def Let_def acknowledged_def selfSentIgnored_def
      systemMessageProcessed_def incompleteSenderData_def
      split: option.splits prod.splits)

lemma webhook2_status:
  "statusCode (fst (webhook2 e body w)) =
     (if event body = Some ''messages.upsert'' \<and>
         (\<exists>mi. messages body = Some mi \<and> \<not> selfSent mi \<and> \<not> truthyString (senderOf mi))
      then 400 else 200)"
  by (auto simp: webhook2_def Let_def acknowledged_def selfSentIgnored_def
      systemMessageProcessed_def incompleteSenderData_def
      split: option.splits prod.splits)

lemma webhook_stub_no_effect:
  "fst (webhook e body w) = systemMessageProcessed \<Longrightarrow> snd (webhook e body w) = w"
  by (auto simp: webhook_def Let_def acknowledged_def selfSentIgnored_def
      systemMessageProcessed_def incompleteSenderData_def
      split: option.splits prod.splits if_splits)

lemma webhook2_stub_no_effect:
  "fst (webhook2 e body w) = systemMessageProcessed \<Longrightarrow> snd (webhook2 e body w) = w"
  by (auto simp: webhook2_def Let_def acknowledged_def selfSentIgnored_def
      systemMessageProcessed_def incompleteSenderData_def
      split: option.splits prod.splits if_splits)

text \<open>
  Claim C4 at a stub notification without a sender. The first copy tests the stub type
  before the sender and acknowledges with success; the second copy tests the sender
  first and reports the client error, as the claim has it. Neither touches the world.
\<close>

theorem stub_without_sender:
  "webhook e stubWithoutSender w = (systemMessageProcessed, w) \<and>
   webhook2 e stubWithoutSender w = (incompleteSenderData, w)"
  by (simp add: webhook_def webhook2_def stubWithoutSender_def selfSent_def senderOf_def
      stubbed_def Let_def)

subsection \<open>Trimming\<close>

lemma trim_decompose:
  "s = takeWhile isWhiteSpace s @ trim s
       @ rev (takeWhile isWhiteSpace (rev (dropWhile isWhiteSpace s)))"
proof -
  let ?a = "dropWhile isWhiteSpace s"
  have "trim s @ rev (takeWhile isWhiteSpace (rev ?a))
        = rev (takeWhile isWhiteSpace (rev ?a) @ dropWhile isWhiteSpace (rev ?a))"
    by (simp only: trim_def rev_append)
  also have "\<dots> = rev (rev ?a)" by (simp only: takeWhile_dropWhile_id)
  also have "\<dots> = ?a" by (simp only: rev_rev_ident)
  finally have "takeWhile isWhiteSpace s @ trim s @ rev (takeWhile isWhiteSpace (rev ?a))
        = takeWhile isWhiteSpace s @ ?a" by (simp only:)
  then show ?thesis by (simp only: takeWhile_dropWhile_id)
qed

lemma trim_trimmed: "trimmed (trim s)"
proof (cases "trim s = []")
  case True
  then show ?thesis by (simp add: trimmed_def)
next
  case False
  let ?a = "dropWhile isWhiteSpace s"
  let ?b = "dropWhile isWhiteSpace (rev ?a)"
  from False have b: "?b \<noteq> []" by (simp add: trim_def)
  then have hb: "\<not> isWhiteSpace (hd ?b)" by (rule hd_dropWhile)
  have a: "?a \<noteq> []"
  proof
    assume "?a = []"
    then have "?b = []" by (simp only: rev.simps(1) dropWhile.simps(1))
    with b show False by contradiction
  qed
  then have ha: "\<not> isWhiteSpace (hd ?a)" by (rule hd_dropWhile)
  have "rev ?a = takeWhile isWhiteSpace (rev ?a) @ ?b" by simp
  with b have "last (rev ?a) = last ?b" by (metis last_appendR)
  with a have "last ?b = hd ?a" by (simp add: last_rev)
  with b have "hd (trim s) = hd ?a" by (simp add: trim_def hd_rev)
  moreover from b have "last (trim s) = hd ?b" by (simp add: trim_def last_rev)
  ultimately show ?thesis using ha hb by (simp add: trimmed_def)
qed

lemma trim_only_white_space:
  "\<exists>pre post. s = pre @ trim s @ post \<and>
     (\<forall>c\<in>set pre. isWhiteSpace c) \<and> (\<forall>c\<in>set post. isWhiteSpace c)"
proof (intro exI conjI)
  show "s = takeWhile isWhiteSpace s @ trim s
       @ rev (takeWhile isWhiteSpace (rev (dropWhile isWhiteSpace s)))"
    by (rule trim_decompose)
  show "\<forall>c\<in>set (takeWhile isWhiteSpace s). isWhiteSpace c"
    by (auto dest: set_takeWhileD)
  show "\<forall>c\<in>set (rev (takeWhile isWhiteSpace (rev (dropWhile isWhiteSpace s)))). isWhiteSpace c"
    by (auto dest: set_takeWhileD)
qed

subsection \<open>The shapes of a completion result\<close>

lemma nestedParts_partsUnder:
  "nestedParts r =
     (case Option.bind (response r) (\<lambda>w. partsUnder (wrappedCandidates w)) of
        None \<Rightarrow> None
      | Some [] \<Rightarrow> None
      | Some (p # ps) \<Rightarrow> Some (p # ps))"
  by (simp add: nestedParts_def partsUnder_def split: option.splits list.splits Option.bind_splits)

lemma directParts_partsUnder: "directParts r = partsUnder (candidates r)"
  by (simp add: directParts_def partsUnder_def split: option.splits list.splits Option.bind_splits)

lemma firstPartText_Picked:
  "firstPartText ps = Picked s \<longleftrightarrow> (case ps of [] \<Rightarrow> None | p # _ \<Rightarrow> partText p) = Some s"
  by (cases ps) (simp_all split: option.splits)

lemma firstPartText_not_Unrecognised: "firstPartText ps \<noteq> Unrecognised"
  by (cases ps) (simp_all split: option.splits)

lemma pickText_nested:
  "nestedText r = Some s \<Longrightarrow> pickText (Some r) = Picked s"
  by (auto simp: pickText_def nestedParts_partsUnder nestedText_def textUnder_def
      split: option.splits list.splits Option.bind_splits)

lemma pickText_nested_without_text:
  "nestedInTheWay r \<Longrightarrow> nestedText r = None \<Longrightarrow> pickText (Some r) = Threw"
  by (auto simp: pickText_def nestedParts_partsUnder nestedText_def textUnder_def
      nestedInTheWay_def split: option.splits list.splits Option.bind_splits)

lemma pickText_direct:
  "\<not> nestedInTheWay r \<Longrightarrow> directText r = Some s \<Longrightarrow> pickText (Some r) = Picked s"
  by (auto simp: pickText_def nestedParts_partsUnder nestedInTheWay_def directText_def
      split: option.splits list.splits if_splits)

lemma pickText_candidates:
  "\<not> nestedInTheWay r \<Longrightarrow> directText r = None \<Longrightarrow> candidatesText r = Some s \<Longrightarrow>
     pickText (Some r) = Picked s"
  by (auto simp: pickText_def nestedParts_partsUnder nestedInTheWay_def directText_def
      directParts_partsUnder candidatesText_def textUnder_def firstPartText_Picked
      split: option.splits list.splits if_splits Option.bind_splits)

lemma pickText_none:
  "nestedText r = None \<Longrightarrow> directText r = None \<Longrightarrow> candidatesText r = None \<Longrightarrow>
     pickText (Some r) = Threw \<or> pickText (Some r) = Unrecognised"
  by (auto simp: pickText_def nestedParts_partsUnder directText_def
      directParts_partsUnder candidatesText_def nestedText_def textUnder_def
      split: option.splits list.splits if_splits Option.bind_splits)

lemma pickText2_direct: "directText r = Some s \<Longrightarrow> pickText2 (Some r) = Picked s"
  by (auto simp: pickText2_def directText_def split: if_splits)

lemma pickText2_candidates:
  "directText r = None \<Longrightarrow> candidatesText r = Some s \<Longrightarrow> pickText2 (Some r) = Picked s"
  by (auto simp: pickText2_def directText_def candidatesText_def textUnder_def partsUnder_def
      deepText_def firstPartText_Picked
      split: option.splits list.splits if_splits Option.bind_splits)

lemma pickText2_none:
  "directText r = None \<Longrightarrow> candidatesText r = None \<Longrightarrow>
     pickText2 (Some r) = Threw \<or> pickText2 (Some r) = Unrecognised"
  by (auto simp: pickText2_def directText_def candidatesText_def textUnder_def partsUnder_def
      deepText_def
      split: option.splits list.splits if_splits Option.bind_splits)

lemma fixed_replies_trimmed:
  "trimmed apologyReply" "trimmed errorReply" "trimmed formatReply"
  "trimmed unusualReply" "trimmed emptyReply"
  by (simp_all add: trimmed_def isWhiteSpace_def apologyReply_def errorReply_def
      formatReply_def unusualReply_def emptyReply_def)

lemma getGeminiResponse_trimmed: "trimmed (getGeminiResponse e t h)"
  by (simp add: getGeminiResponse_def trim_trimmed fixed_replies_trimmed
      split: completion.splits picked.splits)

lemma getGeminiResponse2_trimmed: "trimmed (getGeminiResponse2 e t h)"
  by (simp add: getGeminiResponse2_def trim_trimmed fixed_replies_trimmed
      split: completion.splits picked.splits)

text \<open>
  Claim C7, as far as the code goes. \<open>getGeminiResponse\<close> is a total function into the
  strings, and what it returns has no white space at either end. Without an API key it
  returns the fixed apology. With a key: when the completion call rejects, or resolves
  without a result, or no tolerated shape yields a text, it returns a fixed reply; and
  when the shape that the order of the conditions selects yields a text, it returns that
  text trimmed. In the first copy the order is nested, direct, candidates, and a nested
  shape whose parts are there is selected whether or not its first part carries a text:
  without one the fixed reply is returned, whatever the later shapes hold. In the second
  copy the order is direct, candidates.
\<close>

theorem getGeminiResponse_always_answers:
  "(\<not> truthyString (GEMINI_API_KEY e) \<longrightarrow>
      getGeminiResponse e t h = apologyReply \<and> getGeminiResponse2 e t h = apologyReply) \<and>
   (truthyString (GEMINI_API_KEY e) \<and> sendMessage e t h = Rejects \<longrightarrow>
      getGeminiResponse e t h = errorReply) \<and>
   (truthyString (GEMINI_API_KEY e) \<and> sendMessage e t h = Resolves None \<longrightarrow>
      getGeminiResponse e t h = formatReply) \<and>
   (truthyString (GEMINI_API_KEY e) \<and> sendMessage e t h = Resolves (Some r) \<longrightarrow>
      (nestedText r = Some s \<longrightarrow> getGeminiResponse e t h = trim s) \<and>
      (nestedInTheWay r \<and> nestedText r = None \<longrightarrow> getGeminiResponse e t h = errorReply) \<and>
      (\<not> nestedInTheWay r \<and> directText r = Some s \<longrightarrow> getGeminiResponse e t h = trim s) \<and>
      (\<not> nestedInTheWay r \<and> directText r = None \<and> candidatesText r = Some s \<longrightarrow>
         getGeminiResponse e t h = trim s) \<and>
      (nestedText r = None \<and> directText r = None \<and> candidatesText r = None \<longrightarrow>
         getGeminiResponse e t h = errorReply \<or> getGeminiResponse e t h = formatReply)) \<and>
   (truthyString (GEMINI_API_KEY e) \<and>
    (if h \<noteq> [] then sendMessage e t h else generateContent e t) = Rejects \<longrightarrow>
      getGeminiResponse2 e t h = errorReply) \<and>
   (truthyString (GEMINI_API_KEY e) \<and>
    (if h \<noteq> [] then sendMessage e t h else generateContent e t) = Resolves None \<longrightarrow>
      getGeminiResponse2 e t h = emptyReply) \<and>
   (truthyString (GEMINI_API_KEY e) \<and>
    (if h \<noteq> [] then sendMessage e t h else generateContent e t) = Resolves (Some r) \<longrightarrow>
      (directText r = Some s \<longrightarrow> getGeminiResponse2 e t h = trim s) \<and>
      (directText r = None \<and> candidatesText r = Some s \<longrightarrow> getGeminiResponse2 e t h = trim s) \<and>
      (directText r = None \<and> candidatesText r = None \<longrightarrow>
         getGeminiResponse2 e t h = unusualReply \<or> getGeminiResponse2 e t h = emptyReply)) \<and>
   trimmed (getGeminiResponse e t h) \<and> trimmed (getGeminiResponse2 e t h)"
proof -
  have one: "getGeminiResponse e t h = apologyReply \<and> getGeminiResponse2 e t h = apologyReply"
    if "\<not> truthyString (GEMINI_API_KEY e)"
    using that by (simp add: getGeminiResponse_def getGeminiResponse2_def)
  have two: "getGeminiResponse e t h = errorReply"
    if "truthyString (GEMINI_API_KEY e) \<and> sendMessage e t h = Rejects"
    using that by (simp add: getGeminiResponse_def)
  have three: "getGeminiResponse e t h = formatReply"
    if "truthyString (GEMINI_API_KEY e) \<and> sendMessage e t h = Resolves None"
    using that by (simp add: getGeminiResponse_def pickText_def)
  have four: "(nestedText r = Some s \<longrightarrow> getGeminiResponse e t h = trim s) \<and>
      (nestedInTheWay r \<and> nestedText r = None \<longrightarrow> getGeminiResponse e t h = errorReply) \<and>
      (\<not> nestedInTheWay r \<and> directText r = Some s \<longrightarrow> getGeminiResponse e t h = trim s) \<and>
      (\<not> nestedInTheWay r \<and> directText r = None \<and> candidatesText r = Some s \<longrightarrow>
         getGeminiResponse e t h = trim s) \<and>
      (nestedText r = None \<and> directText r = None \<and> candidatesText r = None \<longrightarrow>
         getGeminiResponse e t h = errorReply \<or> getGeminiResponse e t h = formatReply)"
    if k: "truthyString (GEMINI_API_KEY e) \<and> sendMessage e t h = Resolves (Some r)"
  proof (intro conjI impI)
    assume "nestedText r = Some s"
    from pickText_nested [OF this] k show "getGeminiResponse e t h = trim s"
      by (simp add: getGeminiResponse_def)
  next
    assume "nestedInTheWay r \<and> nestedText r = None"
    then have "pickText (Some r) = Threw" by (simp add: pickText_nested_without_text)
    with k show "getGeminiResponse e t h = errorReply" by (simp add: getGeminiResponse_def)
  next
    assume "\<not> nestedInTheWay r \<and> directText r = Some s"
    then have "pickText (Some r) = Picked s" by (simp add: pickText_direct)
    with k show "getGeminiResponse e t h = trim s" by (simp add: getGeminiResponse_def)
  next
    assume "\<not> nestedInTheWay r \<and> directText r = None \<and> candidatesText r = Some s"
    then have "pickText (Some r) = Picked s" by (simp add: pickText_candidates)
    with k show "getGeminiResponse e t h = trim s" by (simp add: getGeminiResponse_def)
  next
    assume "nestedText r = None \<and> directText r = None \<and> candidatesText r = None"
    then have "pickText (Some r) = Threw \<or> pickText (Some r) = Unrecognised"
      by (simp add: pickText_none)
    with k show "getGeminiResponse e t h = errorReply \<or> getGeminiResponse e t h = formatReply"
      by (auto simp: getGeminiResponse_def)
  qed
  have five: "getGeminiResponse2 e t h = errorReply"
    if "truthyString (GEMINI_API_KEY e) \<and>
        (if h \<noteq> [] then sendMessage e t h else generateContent e t) = Rejects"
    using that by (simp add: getGeminiResponse2_def)
  have six: "getGeminiResponse2 e t h = emptyReply"
    if "truthyString (GEMINI_API_KEY e) \<and>
        (if h \<noteq> [] then sendMessage e t h else generateContent e t) = Resolves None"
    using that by (simp add: getGeminiResponse2_def pickText2_def)
  have seven: "(directText r = Some s \<longrightarrow> getGeminiResponse2 e t h = trim s) \<and>
      (directText r = None \<and> candidatesText r = Some s \<longrightarrow> getGeminiResponse2 e t h = trim s) \<and>
      (directText r = None \<and> candidatesText r = None \<longrightarrow>
         getGeminiResponse2 e t h = unusualReply \<or> getGeminiResponse2 e t h = emptyReply)"
    if k: "truthyString (GEMINI_API_KEY e) \<and>
        (if h \<noteq> [] then sendMessage e t h else generateContent e t) = Resolves (Some r)"
  proof (intro conjI impI)
    assume "directText r = Some s"
    from pickText2_direct [OF this] k show "getGeminiResponse2 e t h = trim s"
      by (simp add: getGeminiResponse2_def)
  next
    assume "directText r = None \<and> candidatesText r = Some s"
    then have "pickText2 (Some r) = Picked s" by (simp add: pickText2_candidates)
    with k show "getGeminiResponse2 e t h = trim s" by (simp add: getGeminiResponse2_def)
  next
    assume "directText r = None \<and> candidatesText r = None"
    then have "pickText2 (Some r) = Threw \<or> pickText2 (Some r) = Unrecognised"
      by (simp add: pickText2_none)
    with k show "getGeminiResponse2 e t h = unusualReply \<or> getGeminiResponse2 e t h = emptyReply"
      by (auto simp: getGeminiResponse2_def)
  qed
  from one two three four five six seven getGeminiResponse_trimmed [of e t h]
    getGeminiResponse2_trimmed [of e t h]
  show ?thesis by blast
qed

theorem getGeminiResponse_always_answers_witness:
  "getGeminiResponse
     (everyPostFails\<lparr>sendMessage := (\<lambda>t h. Resolves (Some (nested '' hi '')))\<rparr>) ''q'' [] = ''hi'' \<and>
   getGeminiResponse everyPostFails ''q'' [] = ''hi'' \<and>
   getGeminiResponse
     (everyPostFails\<lparr>sendMessage := (\<lambda>t h. Resolves (Some (underCandidates '' hi '')))\<rparr>) ''q'' []
     = ''hi'' \<and>
   getGeminiResponse2 everyPostFails ''q'' [] = ''hi'' \<and>
   getGeminiResponse2
     (everyPostFails\<lparr>generateContent := (\<lambda>t. Resolves (Some (underCandidates '' hi '')))\<rparr>) ''q'' []
     = ''hi'' \<and>
   getGeminiResponse2
     (everyPostFails\<lparr>generateContent := (\<lambda>t. Resolves (Some (nested '' hi '')))\<rparr>) ''q'' []
     = emptyReply \<and>
   getGeminiResponse (everyPostFails\<lparr>GEMINI_API_KEY := None\<rparr>) ''q'' [] = apologyReply \<and>
   getGeminiResponse2 (everyPostFails\<lparr>GEMINI_API_KEY := None\<rparr>) ''q'' [] = apologyReply \<and>
   getGeminiResponse (everyPostFails\<lparr>sendMessage := (\<lambda>t h. Rejects)\<rparr>) ''q'' [] = errorReply \<and>
   getGeminiResponse2 (everyPostFails\<lparr>generateContent := (\<lambda>t. Rejects)\<rparr>) ''q'' [] = errorReply"
proof -
  have tr: "trim '' hi '' = ''hi''" by (simp add: trim_def isWhiteSpace_def)
  have shapes:
    "nestedText (nested '' hi '') = Some '' hi ''"
    "directText (nested '' hi '') = None" "candidatesText (nested '' hi '') = None"
    "\<not> nestedInTheWay (underCandidates '' hi '')"
    "directText (underCandidates '' hi '') = None"
    "candidatesText (underCandidates '' hi '') = Some '' hi ''"
    "\<not> nestedInTheWay \<lparr>response = None, textField = Some '' hi '', candidates = None\<rparr>"
    "directText \<lparr>response = None, textField = Some '' hi '', candidates = None\<rparr> = Some '' hi ''"
    by (simp_all add: nested_def underCandidates_def nestedText_def directText_def
        candidatesText_def textUnder_def partsUnder_def nestedInTheWay_def)
  from getGeminiResponse_always_answers
    [of "everyPostFails\<lparr>sendMessage := (\<lambda>t h. Resolves (Some (nested '' hi '')))\<rparr>"
        "''q''" "[]" "nested '' hi ''" "'' hi ''"]
  have a: "getGeminiResponse
     (everyPostFails\<lparr>sendMessage := (\<lambda>t h. Resolves (Some (nested '' hi '')))\<rparr>) ''q'' [] = ''hi''"
    by (simp add: everyPostFails_def shapes tr)
  from getGeminiResponse_always_answers
    [of everyPostFails "''q''" "[]"
        "\<lparr>response = None, textField = Some '' hi '', candidates = None\<rparr>" "'' hi ''"]
  have b: "getGeminiResponse everyPostFails ''q'' [] = ''hi''"
    and d: "getGeminiResponse2 everyPostFails ''q'' [] = ''hi''"
    by (simp_all add: everyPostFails_def answering_def shapes tr)
  from getGeminiResponse_always_answers
    [of "everyPostFails\<lparr>sendMessage := (\<lambda>t h. Resolves (Some (underCandidates '' hi '')))\<rparr>"
        "''q''" "[]" "underCandidates '' hi ''" "'' hi ''"]
  have c: "getGeminiResponse
     (everyPostFails\<lparr>sendMessage := (\<lambda>t h. Resolves (Some (underCandidates '' hi '')))\<rparr>) ''q'' []
     = ''hi''"
    by (simp add: everyPostFails_def shapes tr)
  from getGeminiResponse_always_answers
    [of "everyPostFails\<lparr>generateContent := (\<lambda>t. Resolves (Some (underCandidates '' hi '')))\<rparr>"
        "''q''" "[]" "underCandidates '' hi ''" "'' hi ''"]
  have f: "getGeminiResponse2
     (everyPostFails\<lparr>generateContent := (\<lambda>t. Resolves (Some (underCandidates '' hi '')))\<rparr>) ''q'' []
     = ''hi''"
    by (simp add: everyPostFails_def shapes tr)
  have g: "getGeminiResponse2
     (everyPostFails\<lparr>generateContent := (\<lambda>t. Resolves (Some (nested '' hi '')))\<rparr>) ''q'' []
     = emptyReply"
    by (simp add: getGeminiResponse2_def everyPostFails_def pickText2_def nested_def)
  from getGeminiResponse_always_answers
    [of "everyPostFails\<lparr>GEMINI_API_KEY := None\<rparr>" "''q''" "[]"]
  have i: "getGeminiResponse (everyPostFails\<lparr>GEMINI_API_KEY := None\<rparr>) ''q'' [] = apologyReply"
    and j: "getGeminiResponse2 (everyPostFails\<lparr>GEMINI_API_KEY := None\<rparr>) ''q'' [] = apologyReply"
    by (simp_all add: everyPostFails_def)
  from getGeminiResponse_always_answers
    [of "everyPostFails\<lparr>sendMessage := (\<lambda>t h. Rejects)\<rparr>" "''q''" "[]"]
  have k: "getGeminiResponse (everyPostFails\<lparr>sendMessage := (\<lambda>t h. Rejects)\<rparr>) ''q'' [] = errorReply"
    by (simp add: everyPostFails_def)
  from getGeminiResponse_always_answers
    [of "everyPostFails\<lparr>generateContent := (\<lambda>t. Rejects)\<rparr>" "''q''" "[]"]
  have l: "getGeminiResponse2 (everyPostFails\<lparr>generateContent := (\<lambda>t. Rejects)\<rparr>) ''q'' [] = errorReply"
    by (simp add: everyPostFails_def)
  from a b c d f g i j k l show ?thesis by blast
qed

text \<open>
  In the first copy a nested shape whose first part carries no text is entered all the
  same, and calling \<open>trim\<close> on the missing text ends in the \<open>catch\<close>: the fixed reply
  is returned although the direct shape yields a text.
\<close>

theorem getGeminiResponse_always_answers_counterexample:
  "nestedText textlessNested = None \<and>
   directText textlessNested = Some ''hello'' \<and>
   getGeminiResponse
     (everyPostFails\<lparr>sendMessage := (\<lambda>t h. Resolves (Some textlessNested))\<rparr>) ''q'' []
     = errorReply \<and>
   errorReply \<noteq> trim ''hello''"
  by (simp add: getGeminiResponse_def everyPostFails_def pickText_def nestedParts_def
      textlessNested_def nestedText_def directText_def textUnder_def partsUnder_def
      errorReply_def trim_def isWhiteSpace_def)

end
